theory Spec2Isabelle
  imports Main "HOL-Library.Sublist"
begin

section \<open>The backup notebook of the Powerfox API client\<close>

text \<open>
  The development embeds the three functions of \<^verbatim>\<open>src/backup.ipynb\<close>
  (\<^verbatim>\<open>backup_date\<close>, \<^verbatim>\<open>append_to_json_file\<close>, \<^verbatim>\<open>backup\<close>) and the
  comprehension that computes the default date range \<^verbatim>\<open>dates\<close>.

  Everything the notebook does to the outside is made explicit in a \<open>world\<close>: the
  requests answered by the vendor API, the lines printed, the sleeps, and the output
  file. The functions take the world and return the new one.
\<close>

subsection \<open>Calendar days\<close>

text \<open>
  A \<^verbatim>\<open>datetime.date\<close> is identified with its proleptic Gregorian ordinal
  (\<^verbatim>\<open>date.toordinal()\<close>: day 1 is 0001-01-01, the last day 9999-12-31 is
  3652059). \<^verbatim>\<open>date + timedelta(days=k)\<close> is then addition of \<open>k\<close>, and
  \<^verbatim>\<open>(end - start).days\<close> is subtraction, which is how the standard library
  defines both.
\<close>

type_synonym date = int

definition MINORDINAL :: int where
  "MINORDINAL = 1"

definition MAXORDINAL :: int where
  "MAXORDINAL = 3652059"

definition valid_date :: "date \<Rightarrow> bool" where
  "valid_date d = (MINORDINAL \<le> d \<and> d \<le> MAXORDINAL)"

text \<open>
  \<^verbatim>\<open>dates = [start + timedelta(days=day) for day in range((end - start).days)]\<close>

  A negative \<^verbatim>\<open>range\<close> bound gives the empty range, as \<open>nat\<close> of a negative
  integer is \<open>0\<close>.
\<close>

definition dates :: "date \<Rightarrow> date \<Rightarrow> date list" where
  "dates start end = map (\<lambda>day. start + int day) [0 ..< nat (end - start)]"

subsection \<open>Rendering: decimal numbers, ISO dates, JSON strings\<close>

definition digit :: "nat \<Rightarrow> char" where
  "digit n = ''0123456789'' ! (n mod 10)"

function str_nat :: "nat \<Rightarrow> string" where
  "str_nat n = (if n < 10 then [digit n] else str_nat (n div 10) @ [digit n])"
  by pat_completeness auto
termination
  by (relation "measure id") auto

declare str_nat.simps [simp del]

text \<open>\<^verbatim>\<open>"%0wd"\<close>: left padding with zeros up to width \<open>w\<close>.\<close>

definition zero_pad :: "nat \<Rightarrow> string \<Rightarrow> string" where
  "zero_pad w s = replicate (w - length s) (CHR ''0'') @ s"

text \<open>
  The standard library's \<^verbatim>\<open>_ord2ymd\<close>: year, month and day of an ordinal.
  \<^verbatim>\<open>
  n -= 1
  n400, n = divmod(n, _DI400Y)
  year = n400 * 400 + 1
  n100, n = divmod(n, _DI100Y)
  n4, n = divmod(n, _DI4Y)
  n1, n = divmod(n, 365)
  year += n100 * 100 + n4 * 4 + n1
  if n1 == 4 or n100 == 4:
      return year-1, 12, 31
  leapyear = n1 == 3 and (n4 != 24 or n100 == 3)
  month = (n + 50) >> 5
  preceding = _DAYS_BEFORE_MONTH[month] + (month > 2 and leapyear)
  if preceding > n:
      month -= 1
      preceding -= _DAYS_IN_MONTH[month] + (month == 2 and leapyear)
  n -= preceding
  return year, month, n+1
  \<close>
\<close>

definition DAYS_IN_MONTH :: "nat list" where
  "DAYS_IN_MONTH = [0, 31, 28, 31, 30, 31, 30, 31, 31, 30, 31, 30, 31]"

definition DAYS_BEFORE_MONTH :: "nat list" where
  "DAYS_BEFORE_MONTH = [0, 0, 31, 59, 90, 120, 151, 181, 212, 243, 273, 304, 334]"

definition ord2ymd :: "date \<Rightarrow> nat \<times> nat \<times> nat" where
  "ord2ymd ordinal =
    (let n0 = nat (ordinal - 1);
         n400 = n0 div 146097; r400 = n0 mod 146097;
         n100 = r400 div 36524; r100 = r400 mod 36524;
         n4 = r100 div 1461; r4 = r100 mod 1461;
         n1 = r4 div 365; n = r4 mod 365;
         year = n400 * 400 + 1 + n100 * 100 + n4 * 4 + n1
     in if n1 = 4 \<or> n100 = 4 then (year - 1, 12, 31)
        else
          let leapyear = (n1 = 3 \<and> (n4 \<noteq> 24 \<or> n100 = 3));
              month = (n + 50) div 32;
              preceding = DAYS_BEFORE_MONTH ! month + (if month > 2 \<and> leapyear then 1 else 0)
          in if preceding > n
             then let month' = month - 1;
                      preceding' = preceding -
                        (DAYS_IN_MONTH ! month' + (if month' = 2 \<and> leapyear then 1 else 0))
                  in (year, month', n - preceding' + 1)
             else (year, month, n - preceding + 1))"

text \<open>\<^verbatim>\<open>date.isoformat()\<close>, which is also \<^verbatim>\<open>str(date)\<close>: \<^verbatim>\<open>"%04d-%02d-%02d"\<close>.\<close>

definition isoformat :: "date \<Rightarrow> string" where
  "isoformat day =
    (case ord2ymd day of (y, m, d) \<Rightarrow>
       zero_pad 4 (str_nat y) @ ''-'' @ zero_pad 2 (str_nat m) @ ''-'' @ zero_pad 2 (str_nat d))"

text \<open>
  How \<^verbatim>\<open>json.dumps\<close> writes a string (\<^verbatim>\<open>ensure_ascii\<close>, the default): between
  double quotes, with the quote, the backslash and every character outside the printable
  ASCII range escaped. Characters are code points below 256 here.
\<close>

definition hex_digit :: "nat \<Rightarrow> char" where
  "hex_digit n = ''0123456789abcdef'' ! (n mod 16)"

definition json_escape :: "char \<Rightarrow> string" where
  "json_escape c =
    (if c = CHR 0x22 then [CHR 0x5C, CHR 0x22]
     else if c = CHR 0x5C then [CHR 0x5C, CHR 0x5C]
     else if c = CHR 0x08 then [CHR 0x5C, CHR ''b'']
     else if c = CHR 0x0C then [CHR 0x5C, CHR ''f'']
     else if c = CHR 0x0A then [CHR 0x5C, CHR ''n'']
     else if c = CHR 0x0D then [CHR 0x5C, CHR ''r'']
     else if c = CHR 0x09 then [CHR 0x5C, CHR ''t'']
     else if of_char c < (0x20 :: nat) \<or> (0x7E :: nat) < of_char c
       then [CHR 0x5C, CHR ''u'', CHR ''0'', CHR ''0'',
             hex_digit (of_char c div 16), hex_digit (of_char c)]
     else [c])"

definition json_string :: "string \<Rightarrow> string" where
  "json_string s = [CHR 0x22] @ concat (map json_escape s) @ [CHR 0x22]"

text \<open>
  \<^verbatim>\<open>dumps({"day": day.isoformat(), "data": data}) + "\n"\<close>, the argument of
  \<^verbatim>\<open>f.write\<close>. The payload is opaque: its serialiser \<open>dumps\<close> is a parameter.
  A dictionary is written with the separators \<^verbatim>\<open>", "\<close> and \<^verbatim>\<open>": "\<close>, its keys in
  insertion order.
\<close>

definition record_line :: "('j \<Rightarrow> string) \<Rightarrow> date \<Rightarrow> 'j \<Rightarrow> string" where
  "record_line dumps day data =
     ''{'' @ json_string ''day'' @ '': '' @ json_string (isoformat day) @ '', '' @
     json_string ''data'' @ '': '' @ dumps data @ ''}'' @ [CHR 0x0A]"

subsection \<open>The world: the vendor API, the console, the clock and the output file\<close>

text \<open>
  The notebook's module constants. \<^verbatim>\<open>device\<close> stands for \<^verbatim>\<open>device.id\<close>, the only
  attribute of the device that the backup functions read.
\<close>

record globals =
  BATCH_APPEND :: nat
  RETRIES :: nat
  BACKOFF :: nat
  device :: string

text \<open>
  \<^verbatim>\<open>BATCH_APPEND = 15\<close>, \<^verbatim>\<open>RETRIES = 10\<close>, \<^verbatim>\<open>BACKOFF = 2\<close>
\<close>

definition notebook_globals :: "string \<Rightarrow> globals" where
  "notebook_globals dev = \<lparr>BATCH_APPEND = 15, RETRIES = 10, BACKOFF = 2, device = dev\<rparr>"

text \<open>
  What a run does, in the order it does it. \<open>Call\<close> and \<open>Return\<close> mark the entry to
  and the return from \<^verbatim>\<open>backup_date\<close>; the other events are the effects of the
  statements of the notebook: the request to the API, \<^verbatim>\<open>print\<close>, \<^verbatim>\<open>sleep\<close>,
  \<^verbatim>\<open>file.open("a")\<close>, \<^verbatim>\<open>f.write\<close> and the end of the \<^verbatim>\<open>with\<close> block.
\<close>

datatype 'j event =
    Call date
  | Request string date
  | Print string
  | Sleep nat
  | Return date "'j option"
  | Open
  | Write string
  | Close

text \<open>
  \<open>served\<close> counts the requests the API has answered, \<open>trace\<close> is the log of events,
  oldest first, and \<open>out_file\<close> is the content of the output file, \<open>None\<close> while the
  file does not exist. File operations always succeed in this model.
\<close>

record 'j world =
  served :: nat
  trace :: "'j event list"
  out_file :: "string option"

text \<open>
  The client's \<^verbatim>\<open>get_historical_data_raw\<close> is not among the sources at hand, and what
  it returns depends on the vendor's service: it is a parameter of the model.
  \<open>api n dev day\<close> is the outcome of the request for \<open>day\<close> of device \<open>dev\<close> when
  \<open>n\<close> requests have been answered before: \<open>Inl\<close> of the text of the exception raised,
  or \<open>Inr\<close> of the value returned. The value returned is \<open>Some\<close> payload, or \<open>None\<close> for
  Python's \<^verbatim>\<open>None\<close> (a response whose JSON body is \<^verbatim>\<open>null\<close>): \<^verbatim>\<open>backup_date\<close>
  returns it as it is, and the driver's test \<^verbatim>\<open>data is None\<close> does not tell it from the
  \<^verbatim>\<open>None\<close> with which \<^verbatim>\<open>backup_date\<close> falls out of its loop.
\<close>

type_synonym 'j api = "nat \<Rightarrow> string \<Rightarrow> date \<Rightarrow> string + 'j option"

definition emit :: "'j event \<Rightarrow> 'j world \<Rightarrow> 'j world" where
  "emit e w = w\<lparr>trace := trace w @ [e]\<rparr>"

definition request :: "string \<Rightarrow> date \<Rightarrow> 'j world \<Rightarrow> 'j world" where
  "request dev day w = emit (Request dev day) (w\<lparr>served := Suc (served w)\<rparr>)"

definition content :: "'j world \<Rightarrow> string" where
  "content w = (case out_file w of None \<Rightarrow> [] | Some c \<Rightarrow> c)"

text \<open>Opening in append mode creates the file when it does not exist.\<close>

definition file_open :: "'j world \<Rightarrow> 'j world" where
  "file_open w = emit Open (w\<lparr>out_file := Some (content w)\<rparr>)"

definition file_write :: "string \<Rightarrow> 'j world \<Rightarrow> 'j world" where
  "file_write s w = emit (Write s) (w\<lparr>out_file := Some (content w @ s)\<rparr>)"

definition file_close :: "'j world \<Rightarrow> 'j world" where
  "file_close w = emit Close w"

subsection \<open>The day fetcher\<close>

text \<open>
  \<^verbatim>\<open>
  def backup_date(day: date):
      retries = 0
      while retries < RETRIES:
          try:
              hisotrical_data = api.get_historical_data_raw(device_id=device.id, day=day)
              return hisotrical_data
          except Exception as e:
              print(f"Error while fetching data for {day}: {e}")
              retries += 1
              sleep(BACKOFF * retries)

      print(f"Failed to fetch data for {day} after {RETRIES} retries")
  \<close>
  The function \<open>backup_date_loop\<close> is the \<^verbatim>\<open>while\<close> loop together with the statement
  after it; \<open>retries\<close> is the loop variable.
\<close>

definition error_message :: "date \<Rightarrow> string \<Rightarrow> string" where
  "error_message day e = ''Error while fetching data for '' @ isoformat day @ '': '' @ e"

definition failed_message :: "globals \<Rightarrow> date \<Rightarrow> string" where
  "failed_message g day =
     ''Failed to fetch data for '' @ isoformat day @ '' after '' @ str_nat (RETRIES g) @ '' retries''"

function backup_date_loop ::
  "globals \<Rightarrow> 'j api \<Rightarrow> date \<Rightarrow> nat \<Rightarrow> 'j world \<Rightarrow> 'j option \<times> 'j world" where
  "backup_date_loop g api day retries w =
     (if retries < RETRIES g then
        (case api (served w) (device g) day of
           Inr hisotrical_data \<Rightarrow> (hisotrical_data, request (device g) day w)
         | Inl e \<Rightarrow>
             backup_date_loop g api day (retries + 1)
               (emit (Sleep (BACKOFF g * (retries + 1)))
                  (emit (Print (error_message day e)) (request (device g) day w))))
      else (None, emit (Print (failed_message g day)) w))"
  by pat_completeness auto
termination
  by (relation "measure (\<lambda>(g, api, day, retries, w). RETRIES g - retries)") auto

declare backup_date_loop.simps [simp del]

definition backup_date :: "globals \<Rightarrow> 'j api \<Rightarrow> date \<Rightarrow> 'j world \<Rightarrow> 'j option \<times> 'j world" where
  "backup_date g api day w =
     (case backup_date_loop g api day 0 (emit (Call day) w) of
        (result, w') \<Rightarrow> (result, emit (Return day result) w'))"

subsection \<open>The batch and its flush\<close>

text \<open>
  The batch is a \<^verbatim>\<open>dict[date, JSON]\<close>. A Python dictionary iterates in insertion
  order, and an assignment to a key it already holds replaces the value where the key
  stands; so it is a list of pairs with distinct keys, and \<^verbatim>\<open>batch[day] = data\<close> is
  \<open>dict_setitem\<close>. \<^verbatim>\<open>len(batch)\<close> is the length of the list.
\<close>

type_synonym 'j batch = "(date \<times> 'j) list"

fun dict_setitem :: "'j batch \<Rightarrow> date \<Rightarrow> 'j \<Rightarrow> 'j batch" where
  "dict_setitem [] day data = [(day, data)]"
| "dict_setitem ((k, v) # items) day data =
     (if k = day then (k, data) # items else (k, v) # dict_setitem items day data)"

text \<open>
  \<^verbatim>\<open>
  def append_to_json_file(batch: dict[date, JSON], *, file: Path):
      with file.open("a") as f:
          for day, data in batch.items():
              f.write(dumps({"day": day.isoformat(), "data": data}) + "\n")
  \<close>
\<close>

fun write_items :: "('j \<Rightarrow> string) \<Rightarrow> 'j batch \<Rightarrow> 'j world \<Rightarrow> 'j world" where
  "write_items dumps [] w = w"
| "write_items dumps ((day, data) # items) w =
     write_items dumps items (file_write (record_line dumps day data) w)"

definition append_to_json_file :: "('j \<Rightarrow> string) \<Rightarrow> 'j batch \<Rightarrow> 'j world \<Rightarrow> 'j world" where
  "append_to_json_file dumps batch w = file_close (write_items dumps batch (file_open w))"

subsection \<open>The driver\<close>

text \<open>
  \<^verbatim>\<open>
  def backup(date_range: list[date] = dates, *, file: Path = FILENAME):
      batch: dict[date, JSON] = {}

      for day in date_range:
          data = backup_date(day)

          if data is None:
              continue

          batch[day] = data

          if len(batch) >= BATCH_APPEND:
              append_to_json_file(batch, file=file)
              batch = {}

      # dump the remaining
      if len(batch) > 0:
          append_to_json_file(batch, file=file)
  \<close>
  \<open>backup_body\<close> is one pass through the body of the \<^verbatim>\<open>for\<close> loop, on the batch and
  the world; \<open>backup_loop\<close> is the loop.
\<close>

definition backup_body ::
  "globals \<Rightarrow> 'j api \<Rightarrow> ('j \<Rightarrow> string) \<Rightarrow> date \<Rightarrow> 'j batch \<times> 'j world \<Rightarrow> 'j batch \<times> 'j world" where
  "backup_body g api dumps day s =
     (case s of (batch, w) \<Rightarrow>
        (case backup_date g api day w of
           (None, w1) \<Rightarrow> (batch, w1)
         | (Some data, w1) \<Rightarrow>
             (let batch1 = dict_setitem batch day data
              in if length batch1 \<ge> BATCH_APPEND g
                 then ([], append_to_json_file dumps batch1 w1)
                 else (batch1, w1))))"

fun backup_loop ::
  "globals \<Rightarrow> 'j api \<Rightarrow> ('j \<Rightarrow> string) \<Rightarrow> date list \<Rightarrow> 'j batch \<times> 'j world \<Rightarrow> 'j batch \<times> 'j world" where
  "backup_loop g api dumps [] s = s"
| "backup_loop g api dumps (day # date_range) s =
     backup_loop g api dumps date_range (backup_body g api dumps day s)"

definition backup :: "globals \<Rightarrow> 'j api \<Rightarrow> ('j \<Rightarrow> string) \<Rightarrow> date list \<Rightarrow> 'j world \<Rightarrow> 'j world" where
  "backup g api dumps date_range w =
     (case backup_loop g api dumps date_range ([], w) of
        (batch, w1) \<Rightarrow>
          if length batch > 0 then append_to_json_file dumps batch w1 else w1)"

subsection \<open>Reading a trace\<close>

text \<open>
  The days handed to \<^verbatim>\<open>backup_date\<close>, the values it returned, the days for which it
  returned data (with the data), the days for which it returned \<^verbatim>\<open>None\<close>, the sleeps,
  the requests, the strings written, and the file operations of a trace.
\<close>

fun called :: "'j event list \<Rightarrow> date list" where
  "called [] = []"
| "called (Call d # es) = d # called es"
| "called (e # es) = called es"

fun returned :: "'j event list \<Rightarrow> (date \<times> 'j option) list" where
  "returned [] = []"
| "returned (Return d r # es) = (d, r) # returned es"
| "returned (e # es) = returned es"

fun fetched :: "'j event list \<Rightarrow> (date \<times> 'j) list" where
  "fetched [] = []"
| "fetched (Return d (Some p) # es) = (d, p) # fetched es"
| "fetched (e # es) = fetched es"

fun gave_up :: "'j event list \<Rightarrow> date list" where
  "gave_up [] = []"
| "gave_up (Return d None # es) = d # gave_up es"
| "gave_up (e # es) = gave_up es"

fun sleeps :: "'j event list \<Rightarrow> nat list" where
  "sleeps [] = []"
| "sleeps (Sleep n # es) = n # sleeps es"
| "sleeps (e # es) = sleeps es"

fun requests :: "'j event list \<Rightarrow> date list" where
  "requests [] = []"
| "requests (Request dev d # es) = d # requests es"
| "requests (e # es) = requests es"

fun written :: "'j event list \<Rightarrow> string list" where
  "written [] = []"
| "written (Write s # es) = s # written es"
| "written (e # es) = written es"

fun file_ops :: "'j event list \<Rightarrow> 'j event list" where
  "file_ops [] = []"
| "file_ops (Open # es) = Open # file_ops es"
| "file_ops (Write s # es) = Write s # file_ops es"
| "file_ops (Close # es) = Close # file_ops es"
| "file_ops (e # es) = file_ops es"

text \<open>The events a run adds to the trace it started with.\<close>

definition emitted :: "'j world \<Rightarrow> 'j world \<Rightarrow> 'j event list" where
  "emitted w w' = drop (length (trace w)) (trace w')"

text \<open>
  The events of one attempt that raises \<open>e\<close>, the \<open>n\<close>-th of its call of
  \<^verbatim>\<open>backup_date\<close>: the request, the line printed, the sleep.
\<close>

definition failed_attempt :: "globals \<Rightarrow> date \<Rightarrow> nat \<Rightarrow> string \<Rightarrow> 'j event list" where
  "failed_attempt g day n e =
     [Request (device g) day, Print (error_message day e), Sleep (BACKOFF g * n)]"

text \<open>The strings \<^verbatim>\<open>append_to_json_file\<close> writes for a batch, in the order it writes them.\<close>

definition batch_lines :: "('j \<Rightarrow> string) \<Rightarrow> 'j batch \<Rightarrow> string list" where
  "batch_lines dumps batch = map (\<lambda>(day, data). record_line dumps day data) batch"

text \<open>
  The batching of the driver's loop, on the replies with data in the order they come:
  each is stored with \<^verbatim>\<open>batch[day] = data\<close>, and when \<^verbatim>\<open>len(batch) >= BATCH_APPEND\<close>
  the batch is written and the next reply meets the empty batch. \<open>flushed\<close> is the
  entries written by the flushes inside the loop, batch after batch, and \<open>pending\<close> is
  the batch left when the loop ends; \<open>batch\<close> is the batch at the start. \<open>records\<close>,
  the two in that order from the empty batch, is what a whole run writes.
\<close>

fun flushed :: "nat \<Rightarrow> 'j batch \<Rightarrow> (date \<times> 'j) list \<Rightarrow> (date \<times> 'j) list" where
  "flushed threshold batch [] = []"
| "flushed threshold batch ((day, data) # rest) =
     (if threshold \<le> length (dict_setitem batch day data)
      then dict_setitem batch day data @ flushed threshold [] rest
      else flushed threshold (dict_setitem batch day data) rest)"

fun pending :: "nat \<Rightarrow> 'j batch \<Rightarrow> (date \<times> 'j) list \<Rightarrow> 'j batch" where
  "pending threshold batch [] = batch"
| "pending threshold batch ((day, data) # rest) =
     (if threshold \<le> length (dict_setitem batch day data)
      then pending threshold [] rest
      else pending threshold (dict_setitem batch day data) rest)"

definition records :: "nat \<Rightarrow> (date \<times> 'j) list \<Rightarrow> (date \<times> 'j) list" where
  "records threshold replies = flushed threshold [] replies @ pending threshold [] replies"

text \<open>The characters an ISO date is made of.\<close>

definition date_chars :: "char set" where
  "date_chars = set ''0123456789-''"

text \<open>
  Inputs for concrete runs: the world before a run (no request answered, nothing logged,
  no output file) and an API that answers every request with the same value.
\<close>

definition new_world :: "'j world" where
  "new_world = \<lparr>served = 0, trace = [], out_file = None\<rparr>"


section \<open>Basic facts\<close>

subsection \<open>The world and the projections of a trace\<close>

lemma emit_simps [simp]:
  "served (emit e w) = served w"
  "trace (emit e w) = trace w @ [e]"
  "out_file (emit e w) = out_file w"
  by (simp_all add: emit_def)

lemma request_simps [simp]:
  "served (request dev day w) = Suc (served w)"
  "trace (request dev day w) = trace w @ [Request dev day]"
  "out_file (request dev day w) = out_file w"
  by (simp_all add: request_def)

lemma content_emit [simp]: "content (emit e w) = content w"
  by (simp add: content_def)

lemma content_request [simp]: "content (request dev day w) = content w"
  by (simp add: content_def)

lemma file_open_simps [simp]:
  "served (file_open w) = served w"
  "trace (file_open w) = trace w @ [Open]"
  "out_file (file_open w) = Some (content w)"
  "content (file_open w) = content w"
  by (simp_all add: file_open_def content_def)

lemma file_write_simps [simp]:
  "served (file_write s w) = served w"
  "trace (file_write s w) = trace w @ [Write s]"
  "out_file (file_write s w) = Some (content w @ s)"
  "content (file_write s w) = content w @ s"
  by (simp_all add: file_write_def content_def)

lemma file_close_simps [simp]:
  "served (file_close w) = served w"
  "trace (file_close w) = trace w @ [Close]"
  "out_file (file_close w) = out_file w"
  "content (file_close w) = content w"
  by (simp_all add: file_close_def)

lemma called_append [simp]: "called (xs @ ys) = called xs @ called ys"
  by (induction xs rule: called.induct) simp_all

lemma returned_append [simp]: "returned (xs @ ys) = returned xs @ returned ys"
  by (induction xs rule: returned.induct) simp_all

lemma fetched_append [simp]: "fetched (xs @ ys) = fetched xs @ fetched ys"
  by (induction xs rule: fetched.induct) simp_all

lemma gave_up_append [simp]: "gave_up (xs @ ys) = gave_up xs @ gave_up ys"
  by (induction xs rule: gave_up.induct) simp_all

lemma sleeps_append [simp]: "sleeps (xs @ ys) = sleeps xs @ sleeps ys"
  by (induction xs rule: sleeps.induct) simp_all

lemma requests_append [simp]: "requests (xs @ ys) = requests xs @ requests ys"
  by (induction xs rule: requests.induct) simp_all

lemma written_append [simp]: "written (xs @ ys) = written xs @ written ys"
  by (induction xs rule: written.induct) simp_all

lemma file_ops_append [simp]: "file_ops (xs @ ys) = file_ops xs @ file_ops ys"
  by (induction xs rule: file_ops.induct) simp_all

lemma emitted_append [simp]: "trace w' = trace w @ E \<Longrightarrow> emitted w w' = E"
  by (simp add: emitted_def)

text \<open>The loop of the day fetcher with an arbitrary API.\<close>

lemma backup_date_loop_effect:
  "\<exists>E. trace (snd (backup_date_loop g api day retries w)) = trace w @ E
     \<and> called E = [] \<and> returned E = [] \<and> fetched E = [] \<and> gave_up E = []
     \<and> written E = [] \<and> file_ops E = []
     \<and> set (requests E) \<subseteq> {day}
     \<and> length (requests E) \<le> RETRIES g - retries
     \<and> served (snd (backup_date_loop g api day retries w)) = served w + length (requests E)
     \<and> out_file (snd (backup_date_loop g api day retries w)) = out_file w"
proof (induction g api day retries w rule: backup_date_loop.induct)
  case (1 g api day retries w)
  show ?case
  proof (cases "retries < RETRIES g")
    case False
    then show ?thesis
      by (subst (1 2 3) backup_date_loop.simps) simp
  next
    case True
    show ?thesis
    proof (cases "api (served w) (device g) day")
      case (Inr p)
      with True show ?thesis
        by (subst (1 2 3) backup_date_loop.simps) simp
    next
      case (Inl e)
      let ?w = "emit (Sleep (BACKOFF g * (retries + 1)))
                  (emit (Print (error_message day e)) (request (device g) day w))"
      from "1.IH" [OF True Inl] obtain E where
        E: "trace (snd (backup_date_loop g api day (retries + 1) ?w)) = trace ?w @ E"
           "called E = []" "returned E = []" "fetched E = []" "gave_up E = []"
           "written E = []" "file_ops E = []"
           "set (requests E) \<subseteq> {day}"
           "length (requests E) \<le> RETRIES g - (retries + 1)"
           "served (snd (backup_date_loop g api day (retries + 1) ?w)) = served ?w + length (requests E)"
           "out_file (snd (backup_date_loop g api day (retries + 1) ?w)) = out_file ?w"
        by blast
      have step: "backup_date_loop g api day retries w = backup_date_loop g api day (retries + 1) ?w"
        using True Inl by (subst backup_date_loop.simps) simp
      show ?thesis
        unfolding step
        apply (rule exI [where x = "failed_attempt g day (retries + 1) e @ E"])
        using E True by (simp add: failed_attempt_def)
    qed
  qed
qed


lemma backup_date_effect:
  "\<exists>E. trace (snd (backup_date g api day w)) = trace w @ E
     \<and> called E = [day]
     \<and> returned E = [(day, fst (backup_date g api day w))]
     \<and> fetched E = (case fst (backup_date g api day w) of None \<Rightarrow> [] | Some p \<Rightarrow> [(day, p)])
     \<and> gave_up E = (case fst (backup_date g api day w) of None \<Rightarrow> [day] | Some p \<Rightarrow> [])
     \<and> written E = [] \<and> file_ops E = []
     \<and> set (requests E) \<subseteq> {day}
     \<and> length (requests E) \<le> RETRIES g
     \<and> served (snd (backup_date g api day w)) = served w + length (requests E)
     \<and> out_file (snd (backup_date g api day w)) = out_file w"
proof -
  let ?w = "emit (Call day) w"
  obtain res w' where rw: "backup_date_loop g api day 0 ?w = (res, w')"
    by (cases "backup_date_loop g api day 0 ?w")
  from backup_date_loop_effect [of g api day 0 ?w] rw obtain E where
    E: "trace w' = trace ?w @ E"
       "called E = []" "returned E = []" "fetched E = []" "gave_up E = []"
       "written E = []" "file_ops E = []"
       "set (requests E) \<subseteq> {day}" "length (requests E) \<le> RETRIES g"
       "served w' = served ?w + length (requests E)" "out_file w' = out_file ?w"
    by auto
  have bd: "backup_date g api day w = (res, emit (Return day res) w')"
    by (simp add: backup_date_def rw)
  show ?thesis
    unfolding bd
    apply (rule exI [where x = "Call day # E @ [Return day res]"])
    using E by (cases res) simp_all
qed

lemma upt_0_Suc: "[0 ..< Suc k] = 0 # map Suc [0 ..< k]"
proof -
  have "[0 ..< Suc k] = 0 # [Suc 0 ..< Suc k]"
    by (rule upt_conv_Cons) simp
  then show ?thesis
    by (simp only: map_Suc_upt)
qed

text \<open>The loop when the next \<open>k\<close> requests raise and the one after them succeeds.\<close>

lemma backup_date_loop_success:
  "retries + k < RETRIES g \<Longrightarrow>
   (\<And>i. i < k \<Longrightarrow> api (served w + i) (device g) day = Inl (e i)) \<Longrightarrow>
   api (served w + k) (device g) day = Inr reply \<Longrightarrow>
   backup_date_loop g api day retries w =
     (reply, w\<lparr>served := served w + k + 1,
               trace := trace w @
                 concat (map (\<lambda>i. failed_attempt g day (retries + i + 1) (e i)) [0 ..< k]) @
                 [Request (device g) day]\<rparr>)"
proof (induction k arbitrary: retries w e)
  case 0
  then show ?case
    by (subst backup_date_loop.simps) (simp add: request_def emit_def)
next
  case (Suc k)
  let ?w = "emit (Sleep (BACKOFF g * (retries + 1)))
              (emit (Print (error_message day (e 0))) (request (device g) day w))"
  have first: "api (served w) (device g) day = Inl (e 0)"
    using Suc.prems(2) [of 0] by simp
  have step: "backup_date_loop g api day retries w = backup_date_loop g api day (retries + 1) ?w"
    using Suc.prems(1) first by (subst backup_date_loop.simps) simp
  have rest: "backup_date_loop g api day (retries + 1) ?w =
     (reply, ?w\<lparr>served := served ?w + k + 1,
               trace := trace ?w @
                 concat (map (\<lambda>i. failed_attempt g day (retries + 1 + i + 1) ((e \<circ> Suc) i)) [0 ..< k]) @
                 [Request (device g) day]\<rparr>)"
  proof (rule Suc.IH)
    show "retries + 1 + k < RETRIES g" using Suc.prems(1) by simp
    show "api (served ?w + i) (device g) day = Inl ((e \<circ> Suc) i)" if "i < k" for i
      using Suc.prems(2) [of "Suc i"] that by simp
    show "api (served ?w + k) (device g) day = Inr reply"
      using Suc.prems(3) by simp
  qed
  note split = upt_0_Suc [of k]
  show ?case
    unfolding step rest split
    by (simp add: request_def emit_def failed_attempt_def comp_def)
qed

text \<open>The loop when every remaining request raises.\<close>

lemma backup_date_loop_exhausted:
  "retries + k = RETRIES g \<Longrightarrow>
   (\<And>i. i < k \<Longrightarrow> api (served w + i) (device g) day = Inl (e i)) \<Longrightarrow>
   backup_date_loop g api day retries w =
     (None, w\<lparr>served := served w + k,
             trace := trace w @
               concat (map (\<lambda>i. failed_attempt g day (retries + i + 1) (e i)) [0 ..< k]) @
               [Print (failed_message g day)]\<rparr>)"
proof (induction k arbitrary: retries w e)
  case 0
  then show ?case
    by (subst backup_date_loop.simps) (simp add: emit_def)
next
  case (Suc k)
  let ?w = "emit (Sleep (BACKOFF g * (retries + 1)))
              (emit (Print (error_message day (e 0))) (request (device g) day w))"
  have first: "api (served w) (device g) day = Inl (e 0)"
    using Suc.prems(2) [of 0] by simp
  have step: "backup_date_loop g api day retries w = backup_date_loop g api day (retries + 1) ?w"
    using Suc.prems(1) first by (subst backup_date_loop.simps) simp
  have rest: "backup_date_loop g api day (retries + 1) ?w =
     (None, ?w\<lparr>served := served ?w + k,
               trace := trace ?w @
                 concat (map (\<lambda>i. failed_attempt g day (retries + 1 + i + 1) ((e \<circ> Suc) i)) [0 ..< k]) @
                 [Print (failed_message g day)]\<rparr>)"
  proof (rule Suc.IH)
    show "retries + 1 + k = RETRIES g" using Suc.prems(1) by simp
    show "api (served ?w + i) (device g) day = Inl ((e \<circ> Suc) i)" if "i < k" for i
      using Suc.prems(2) [of "Suc i"] that by simp
  qed
  note split = upt_0_Suc [of k]
  show ?case
    unfolding step rest split
    by (simp add: request_def emit_def failed_attempt_def comp_def)
qed

lemma sleeps_failed_attempts:
  "sleeps (concat (map (\<lambda>i. failed_attempt g day (f i) (e i)) xs)) = map (\<lambda>i. BACKOFF g * f i) xs"
  by (induction xs) (simp_all add: failed_attempt_def)

lemma requests_failed_attempts:
  "requests (concat (map (\<lambda>i. failed_attempt g day (f i) (e i)) xs)) = map (\<lambda>i. day) xs"
  by (induction xs) (simp_all add: failed_attempt_def)

lemma batch_lines_simps [simp]:
  "batch_lines dumps [] = []"
  "batch_lines dumps ((day, data) # batch) = record_line dumps day data # batch_lines dumps batch"
  "batch_lines dumps (xs @ ys) = batch_lines dumps xs @ batch_lines dumps ys"
  by (simp_all add: batch_lines_def)

lemma write_items_effect:
  "trace (write_items dumps batch w) = trace w @ map Write (batch_lines dumps batch)
   \<and> content (write_items dumps batch w) = content w @ concat (batch_lines dumps batch)
   \<and> served (write_items dumps batch w) = served w"
  by (induction dumps batch w rule: write_items.induct) simp_all

lemma out_file_write_items:
  "out_file w = Some c \<Longrightarrow>
   out_file (write_items dumps batch w) = Some (c @ concat (batch_lines dumps batch))"
  by (induction dumps batch w arbitrary: c rule: write_items.induct) (simp_all add: content_def)

lemma append_to_json_file_effect:
  "trace (append_to_json_file dumps batch w) =
     trace w @ Open # map Write (batch_lines dumps batch) @ [Close]
   \<and> out_file (append_to_json_file dumps batch w) =
       Some (content w @ concat (batch_lines dumps batch))
   \<and> content (append_to_json_file dumps batch w) = content w @ concat (batch_lines dumps batch)
   \<and> served (append_to_json_file dumps batch w) = served w"
  by (simp add: append_to_json_file_def write_items_effect out_file_write_items [where c = "content w"])

lemma written_map_Write [simp]: "written (map Write xs) = xs"
  by (induction xs) simp_all

lemma file_ops_map_Write [simp]: "file_ops (map Write xs) = map Write xs"
  by (induction xs) simp_all

lemma called_map_Write [simp]: "called (map Write xs) = []"
  by (induction xs) simp_all

lemma returned_map_Write [simp]: "returned (map Write xs) = []"
  by (induction xs) simp_all

lemma fetched_map_Write [simp]: "fetched (map Write xs) = []"
  by (induction xs) simp_all

lemma gave_up_map_Write [simp]: "gave_up (map Write xs) = []"
  by (induction xs) simp_all

lemma requests_map_Write [simp]: "requests (map Write xs) = []"
  by (induction xs) simp_all

lemma sleeps_map_Write [simp]: "sleeps (map Write xs) = []"
  by (induction xs) simp_all

lemma dict_setitem_fresh:
  "day \<notin> fst ` set batch \<Longrightarrow> dict_setitem batch day data = batch @ [(day, data)]"
  by (induction batch day data rule: dict_setitem.induct) auto

lemma length_dict_setitem:
  "length (dict_setitem batch day data) \<le> Suc (length batch)"
  by (induction batch day data rule: dict_setitem.induct) auto


subsection \<open>The values returned by the day fetcher\<close>

lemma fetched_returned: "(d, p) \<in> set (fetched E) \<longleftrightarrow> (d, Some p) \<in> set (returned E)"
  by (induction E rule: fetched.induct) auto

lemma gave_up_returned: "d \<in> set (gave_up E) \<longleftrightarrow> (d, None) \<in> set (returned E)"
  by (induction E rule: gave_up.induct) auto

lemma fetched_filter:
  "map fst (fetched E) = map fst (filter (\<lambda>x. snd x \<noteq> None) (returned E))"
  by (induction E rule: fetched.induct) auto

lemma gave_up_filter:
  "gave_up E = map fst (filter (\<lambda>x. snd x = None) (returned E))"
  by (induction E rule: gave_up.induct) auto

lemma fetched_gave_up_disjoint:
  assumes "distinct (map fst (returned E))"
  shows "fst ` set (fetched E) \<inter> set (gave_up E) = {}"
proof -
  have False if "(d, p) \<in> set (fetched E)" "d \<in> set (gave_up E)" for d p
  proof -
    from that have "(d, Some p) \<in> set (returned E)" "(d, None) \<in> set (returned E)"
      by (simp_all add: fetched_returned gave_up_returned)
    with assms have "Some p = None"
      by (rule eq_key_imp_eq_value)
    then show False by simp
  qed
  then show ?thesis by fastforce
qed

subsection \<open>The day fetcher and the driver with an arbitrary range\<close>

lemma backup_date_success:
  assumes "k < RETRIES g"
    and "\<And>i. i < k \<Longrightarrow> api (served w + i) (device g) day = Inl (e i)"
    and "api (served w + k) (device g) day = Inr reply"
  shows "fst (backup_date g api day w) = reply"
    and "trace (snd (backup_date g api day w)) = trace w @
           Call day # concat (map (\<lambda>i. failed_attempt g day (i + 1) (e i)) [0 ..< k]) @
           [Request (device g) day, Return day reply]"
    and "out_file (snd (backup_date g api day w)) = out_file w"
proof -
  let ?w = "emit (Call day) w"
  have "backup_date_loop g api day 0 ?w =
     (reply, ?w\<lparr>served := served ?w + k + 1,
               trace := trace ?w @
                 concat (map (\<lambda>i. failed_attempt g day (0 + i + 1) (e i)) [0 ..< k]) @
                 [Request (device g) day]\<rparr>)"
    using assms by (intro backup_date_loop_success) simp_all
  then show "fst (backup_date g api day w) = reply"
    and "trace (snd (backup_date g api day w)) = trace w @
           Call day # concat (map (\<lambda>i. failed_attempt g day (i + 1) (e i)) [0 ..< k]) @
           [Request (device g) day, Return day reply]"
    and "out_file (snd (backup_date g api day w)) = out_file w"
    by (simp_all add: backup_date_def)
qed

lemma backup_date_failure:
  assumes "\<And>i. i < RETRIES g \<Longrightarrow> api (served w + i) (device g) day = Inl (e i)"
  shows "fst (backup_date g api day w) = None"
    and "trace (snd (backup_date g api day w)) = trace w @
           Call day # concat (map (\<lambda>i. failed_attempt g day (i + 1) (e i)) [0 ..< RETRIES g]) @
           [Print (failed_message g day), Return day None]"
    and "out_file (snd (backup_date g api day w)) = out_file w"
proof -
  let ?w = "emit (Call day) w"
  have "backup_date_loop g api day 0 ?w =
     (None, ?w\<lparr>served := served ?w + RETRIES g,
             trace := trace ?w @
               concat (map (\<lambda>i. failed_attempt g day (0 + i + 1) (e i)) [0 ..< RETRIES g]) @
               [Print (failed_message g day)]\<rparr>)"
    using assms by (intro backup_date_loop_exhausted) simp_all
  then show "fst (backup_date g api day w) = None"
    and "trace (snd (backup_date g api day w)) = trace w @
           Call day # concat (map (\<lambda>i. failed_attempt g day (i + 1) (e i)) [0 ..< RETRIES g]) @
           [Print (failed_message g day), Return day None]"
    and "out_file (snd (backup_date g api day w)) = out_file w"
    by (simp_all add: backup_date_def)
qed

lemma map_shift_upt: "map (\<lambda>i. f (i + 1)) [0 ..< k] = map f [1 ..< k + 1]"
proof -
  have "map (\<lambda>i. f (i + 1)) [0 ..< k] = map f (map Suc [0 ..< k])"
    by (simp add: comp_def)
  then show ?thesis
    by (simp only: map_Suc_upt) simp
qed

lemma written_failed_attempts:
  "written (concat (map (\<lambda>i. failed_attempt g day (f i) (e i)) xs)) = []"
  by (induction xs) (simp_all add: failed_attempt_def)

lemma backup_single:
  assumes "fst (backup_date g api day w) = Some data"
  shows "backup g api dumps [day] w =
           append_to_json_file dumps [(day, data)] (snd (backup_date g api day w))"
proof -
  obtain res w1 where bd: "backup_date g api day w = (res, w1)"
    by (cases "backup_date g api day w")
  with assms have res: "res = Some data" by simp
  show ?thesis
    by (simp add: backup_def backup_body_def bd res Let_def)
qed

lemma backup_loop_append:
  "backup_loop g api dumps (xs @ ys) s = backup_loop g api dumps ys (backup_loop g api dumps xs s)"
  by (induction xs arbitrary: s) simp_all

lemma backup_body_cases:
  "backup_body g api dumps day (batch, w) =
     (case fst (backup_date g api day w) of
        None \<Rightarrow> (batch, snd (backup_date g api day w))
      | Some data \<Rightarrow>
          if BATCH_APPEND g \<le> length (dict_setitem batch day data)
          then ([], append_to_json_file dumps (dict_setitem batch day data)
                      (snd (backup_date g api day w)))
          else (dict_setitem batch day data, snd (backup_date g api day w)))"
  by (cases "backup_date g api day w") (simp add: backup_body_def Let_def split: option.split)




lemma backup_body_batch_size:
  assumes "0 < BATCH_APPEND g" "length batch < BATCH_APPEND g"
  shows "length (fst (backup_body g api dumps day (batch, w))) < BATCH_APPEND g"
  using assms by (simp add: backup_body_cases split: option.split)

lemma backup_loop_batch_size:
  "0 < BATCH_APPEND g \<Longrightarrow> length batch < BATCH_APPEND g \<Longrightarrow>
   length (fst (backup_loop g api dumps date_range (batch, w))) < BATCH_APPEND g"
proof (induction date_range arbitrary: batch w)
  case Nil
  then show ?case by simp
next
  case (Cons day date_range)
  obtain b1 w1 where s: "backup_body g api dumps day (batch, w) = (b1, w1)"
    by (cases "backup_body g api dumps day (batch, w)")
  have "length b1 < BATCH_APPEND g"
    using backup_body_batch_size [OF Cons.prems, of api dumps day w] s by simp
  with Cons.IH [OF Cons.prems(1), of b1 w1] show ?case
    by (simp add: s)
qed

subsection \<open>What a run writes, for every range\<close>

lemma pending_append:
  "pending T b (xs @ ys) = pending T (pending T b xs) ys"
  by (induction T b xs rule: pending.induct) simp_all

lemma flushed_append:
  "flushed T b (xs @ ys) = flushed T b xs @ flushed T (pending T b xs) ys"
  by (induction T b xs rule: flushed.induct) simp_all



lemma batching_fresh:
  "distinct (map fst b @ map fst xs) \<Longrightarrow> flushed T b xs @ pending T b xs = b @ xs"
proof (induction T b xs rule: flushed.induct)
  case (1 T b)
  show ?case by simp
next
  case (2 T b day data rest)
  from "2.prems" have fresh: "day \<notin> fst ` set b"
    by auto
  then have b1: "dict_setitem b day data = b @ [(day, data)]"
    by (rule dict_setitem_fresh)
  show ?case
  proof (cases "T \<le> length (dict_setitem b day data)")
    case True
    have "distinct (map fst ([] :: 'a batch) @ map fst rest)"
      using "2.prems" by simp
    from "2.IH"(1) [OF True this] True show ?thesis
      by (simp add: b1)
  next
    case False
    have "distinct (map fst (dict_setitem b day data) @ map fst rest)"
      using "2.prems" by (simp add: b1)
    from "2.IH"(2) [OF False this] False show ?thesis
      by (simp add: b1)
  qed
qed

lemma records_distinct: "distinct (map fst xs) \<Longrightarrow> records T xs = xs"
  using batching_fresh [of "[]" xs T] by (simp add: records_def)










lemma backup_body_any:
  "\<exists>E. trace (snd (backup_body g api dumps day (batch, w))) = trace w @ E
     \<and> called E = [day]
     \<and> map fst (returned E) = [day]
     \<and> written E = batch_lines dumps (flushed (BATCH_APPEND g) batch (fetched E))
     \<and> fst (backup_body g api dumps day (batch, w)) = pending (BATCH_APPEND g) batch (fetched E)
     \<and> content (snd (backup_body g api dumps day (batch, w))) = content w @ concat (written E)"
proof -
  let ?w1 = "snd (backup_date g api day w)"
  let ?res = "fst (backup_date g api day w)"
  from backup_date_effect [of g api day w] obtain E where
    E: "trace ?w1 = trace w @ E" "called E = [day]" "returned E = [(day, ?res)]"
       "fetched E = (case ?res of None \<Rightarrow> [] | Some p \<Rightarrow> [(day, p)])"
       "written E = []" "out_file ?w1 = out_file w"
    by (elim exE conjE) (rule that)
  have c1: "content ?w1 = content w"
    using E(6) by (simp add: content_def)
  show ?thesis
  proof (cases ?res)
    case None
    then have body: "backup_body g api dumps day (batch, w) = (batch, ?w1)"
      by (simp add: backup_body_cases)
    show ?thesis
      unfolding body using E None c1 by (intro exI [where x = E]) simp
  next
    case (Some data)
    let ?b = "dict_setitem batch day data"
    show ?thesis
    proof (cases "BATCH_APPEND g \<le> length ?b")
      case False
      with Some have body: "backup_body g api dumps day (batch, w) = (?b, ?w1)"
        by (simp add: backup_body_cases)
      show ?thesis
        unfolding body using E Some c1 False by (intro exI [where x = E]) simp
    next
      case True
      let ?w = "append_to_json_file dumps ?b ?w1"
      let ?E = "E @ Open # map Write (batch_lines dumps ?b) @ [Close]"
      from True Some have body: "backup_body g api dumps day (batch, w) = ([], ?w)"
        by (simp add: backup_body_cases)
      have t: "trace ?w = trace w @ ?E"
        using append_to_json_file_effect [of dumps ?b ?w1] E(1) by simp
      have ct: "content ?w = content w @ concat (written ?E)"
        using append_to_json_file_effect [of dumps ?b ?w1] c1 E(5) by simp
      have f: "fetched ?E = [(day, data)]"
        using E(4) Some by simp
      have wr: "written ?E = batch_lines dumps (flushed (BATCH_APPEND g) batch (fetched ?E))"
        unfolding f using True E(5) by simp
      have pd: "[] = pending (BATCH_APPEND g) batch (fetched ?E)"
        unfolding f using True by simp
      have cl: "called ?E = [day]" and rt: "map fst (returned ?E) = [day]"
        using E(2,3) by simp_all
      show ?thesis
        unfolding body fst_conv snd_conv using t cl rt wr pd ct
        by (intro exI [where x = ?E] conjI)
    qed
  qed
qed

lemma backup_loop_any:
  "\<exists>E. trace (snd (backup_loop g api dumps date_range (batch, w))) = trace w @ E
     \<and> called E = date_range
     \<and> map fst (returned E) = date_range
     \<and> written E = batch_lines dumps (flushed (BATCH_APPEND g) batch (fetched E))
     \<and> fst (backup_loop g api dumps date_range (batch, w)) =
         pending (BATCH_APPEND g) batch (fetched E)
     \<and> content (snd (backup_loop g api dumps date_range (batch, w))) =
         content w @ concat (written E)"
proof (induction date_range arbitrary: batch w)
  case Nil
  show ?case by (intro exI [where x = "[]"]) simp
next
  case (Cons day date_range)
  obtain b1 w1 where s: "backup_body g api dumps day (batch, w) = (b1, w1)"
    by (cases "backup_body g api dumps day (batch, w)")
  from backup_body_any [of g api dumps day batch w] obtain E1 where
    1: "trace w1 = trace w @ E1" "called E1 = [day]" "map fst (returned E1) = [day]"
       "written E1 = batch_lines dumps (flushed (BATCH_APPEND g) batch (fetched E1))"
       "b1 = pending (BATCH_APPEND g) batch (fetched E1)"
       "content w1 = content w @ concat (written E1)"
    unfolding s fst_conv snd_conv by (elim exE conjE) (rule that)
  from Cons.IH [of b1 w1] obtain E2 where
    2: "trace (snd (backup_loop g api dumps date_range (b1, w1))) = trace w1 @ E2"
       "called E2 = date_range" "map fst (returned E2) = date_range"
       "written E2 = batch_lines dumps (flushed (BATCH_APPEND g) b1 (fetched E2))"
       "fst (backup_loop g api dumps date_range (b1, w1)) =
          pending (BATCH_APPEND g) b1 (fetched E2)"
       "content (snd (backup_loop g api dumps date_range (b1, w1))) =
          content w1 @ concat (written E2)"
    by (elim exE conjE) (rule that)
  have t: "trace (snd (backup_loop g api dumps (day # date_range) (batch, w))) = trace w @ (E1 @ E2)"
    using 1(1) 2(1) by (simp add: s)
  have cl: "called (E1 @ E2) = day # date_range"
    and rt: "map fst (returned (E1 @ E2)) = day # date_range"
    using 1(2,3) 2(2,3) by simp_all
  have wr: "written (E1 @ E2) =
      batch_lines dumps (flushed (BATCH_APPEND g) batch (fetched (E1 @ E2)))"
    using 1(4,5) 2(4) by (simp add: flushed_append)
  have pd: "fst (backup_loop g api dumps (day # date_range) (batch, w)) =
      pending (BATCH_APPEND g) batch (fetched (E1 @ E2))"
    using 1(5) 2(5) by (simp add: s pending_append)
  have ct: "content (snd (backup_loop g api dumps (day # date_range) (batch, w))) =
      content w @ concat (written (E1 @ E2))"
    using 1(6) 2(6) by (simp add: s)
  from t cl rt wr pd ct show ?case
    by (intro exI [where x = "E1 @ E2"] conjI)
qed

lemma backup_any:
  "\<exists>E. trace (backup g api dumps date_range w) = trace w @ E
     \<and> called E = date_range
     \<and> map fst (returned E) = date_range
     \<and> written E = batch_lines dumps (records (BATCH_APPEND g) (fetched E))
     \<and> content (backup g api dumps date_range w) = content w @ concat (written E)"
proof -
  obtain b1 w1 where s: "backup_loop g api dumps date_range ([], w) = (b1, w1)"
    by (cases "backup_loop g api dumps date_range ([], w)")
  from backup_loop_any [of g api dumps date_range "[]" w] obtain E where
    1: "trace w1 = trace w @ E" "called E = date_range" "map fst (returned E) = date_range"
       "written E = batch_lines dumps (flushed (BATCH_APPEND g) [] (fetched E))"
       "b1 = pending (BATCH_APPEND g) [] (fetched E)"
       "content w1 = content w @ concat (written E)"
    unfolding s fst_conv snd_conv by (elim exE conjE) (rule that)
  show ?thesis
  proof (cases "length b1 > 0")
    case False
    then have b: "backup g api dumps date_range w = w1"
      by (simp add: backup_def s)
    have wr: "written E = batch_lines dumps (records (BATCH_APPEND g) (fetched E))"
      using False 1(4,5) by (simp add: records_def)
    show ?thesis
      unfolding b using 1(1,2,3) wr 1(6) by (intro exI [where x = E] conjI)
  next
    case True
    let ?w = "append_to_json_file dumps b1 w1"
    let ?E = "E @ Open # map Write (batch_lines dumps b1) @ [Close]"
    have b: "backup g api dumps date_range w = ?w"
      using True by (simp add: backup_def s)
    have t: "trace ?w = trace w @ ?E"
      using append_to_json_file_effect [of dumps b1 w1] 1(1) by simp
    have cl: "called ?E = date_range" and rt: "map fst (returned ?E) = date_range"
      using 1(2,3) by simp_all
    have wr: "written ?E = batch_lines dumps (records (BATCH_APPEND g) (fetched ?E))"
      using 1(4,5) by (simp add: records_def)
    have "content ?w = content w @ concat (written E) @ concat (batch_lines dumps b1)"
      using append_to_json_file_effect [of dumps b1 w1] 1(6) by simp
    then have ct: "content ?w = content w @ concat (written ?E)"
      by simp
    show ?thesis
      unfolding b using t cl rt wr ct by (intro exI [where x = ?E] conjI)
  qed
qed


lemma backup_effect:
  assumes "distinct date_range"
  shows "\<exists>E. trace (backup g api dumps date_range w) = trace w @ E
     \<and> called E = date_range
     \<and> map fst (returned E) = date_range
     \<and> written E = batch_lines dumps (fetched E)
     \<and> content (backup g api dumps date_range w) = content w @ concat (written E)"
proof -
  from backup_any [of g api dumps date_range w] obtain E where
    E: "trace (backup g api dumps date_range w) = trace w @ E"
       "called E = date_range" "map fst (returned E) = date_range"
       "written E = batch_lines dumps (records (BATCH_APPEND g) (fetched E))"
       "content (backup g api dumps date_range w) = content w @ concat (written E)"
    by (elim exE conjE) (rule that)
  have "distinct (map fst (fetched E))"
    using assms by (simp add: fetched_filter E(3) [symmetric] distinct_map_filter)
  then have "records (BATCH_APPEND g) (fetched E) = fetched E"
    by (rule records_distinct)
  with E show ?thesis
    by (intro exI [where x = E]) simp
qed

subsection \<open>The default date range\<close>

lemma dates_upto: "dates s e = [s .. e - 1]"
proof -
  have "map (\<lambda>day. s + int day) [0 ..< n] = [s .. s + int n - 1]" for n
  proof (induction n)
    case 0
    show ?case by simp
  next
    case (Suc n)
    have "[s .. s + int (Suc n) - 1] = [s .. s + int n]"
      by simp
    also have "\<dots> = [s .. s + int n - 1] @ [s + int n]"
      by (rule upto_rec2) simp
    finally show ?case
      using Suc.IH by simp
  qed
  from this [of "nat (e - s)"] show ?thesis
  proof (cases "s \<le> e")
    case True
    then have "s + int (nat (e - s)) - 1 = e - 1" by simp
    with \<open>map (\<lambda>day. s + int day) [0 ..< nat (e - s)] = [s .. s + int (nat (e - s)) - 1]\<close>
    show ?thesis by (simp add: dates_def)
  next
    case False
    then show ?thesis by (simp add: dates_def)
  qed
qed

lemma atLeastAtMost_eq_atLeastLessThan: "{s .. e - 1} = {s ..< e :: int}"
  by auto

lemma dates_twenty:
  "dates s (s + 20) =
     [s, s + 1, s + 2, s + 3, s + 4, s + 5, s + 6, s + 7, s + 8, s + 9,
      s + 10, s + 11, s + 12, s + 13, s + 14, s + 15, s + 16, s + 17, s + 18, s + 19]"
  by (simp add: dates_def upt_rec)

subsection \<open>The text of a record line\<close>

lemma digit_char: "digit n \<in> date_chars"
proof -
  have "n mod 10 < length ''0123456789''" by simp
  then have "''0123456789'' ! (n mod 10) \<in> set ''0123456789''"
    by (rule nth_mem)
  moreover have "set ''0123456789'' \<subseteq> set ''0123456789-''"
    by simp
  ultimately show ?thesis
    unfolding digit_def date_chars_def by (rule subsetD [rotated])
qed

lemma zero_hyphen_char: "CHR ''0'' \<in> date_chars" "CHR ''-'' \<in> date_chars"
  by (simp_all add: date_chars_def)

lemma str_nat_chars: "set (str_nat n) \<subseteq> date_chars"
proof (induction n rule: str_nat.induct)
  case (1 n)
  show ?case
  proof (cases "n < 10")
    case True
    then have "str_nat n = [digit n]"
      by (subst str_nat.simps) simp
    then show ?thesis
      by (simp add: digit_char)
  next
    case False
    then have "str_nat n = str_nat (n div 10) @ [digit n]"
      by (subst str_nat.simps) simp
    then show ?thesis
      using "1.IH" [OF False] by (simp add: digit_char)
  qed
qed

lemma zero_pad_chars: "set s \<subseteq> date_chars \<Longrightarrow> set (zero_pad n s) \<subseteq> date_chars"
  by (simp add: zero_pad_def zero_hyphen_char set_replicate_conv_if)

lemma isoformat_chars: "set (isoformat day) \<subseteq> date_chars"
proof -
  obtain y m d where ymd: "ord2ymd day = (y, m, d)"
    by (cases "ord2ymd day")
  have "set (zero_pad n (str_nat k)) \<subseteq> date_chars" for n k
    by (rule zero_pad_chars) (rule str_nat_chars)
  then show ?thesis
    by (simp add: isoformat_def ymd zero_hyphen_char)
qed

lemma json_escape_plain: "c \<in> date_chars \<Longrightarrow> json_escape c = [c]"
proof -
  have "\<forall>c \<in> set ''0123456789-''. json_escape c = [c]"
    by (simp add: json_escape_def)
  then show "c \<in> date_chars \<Longrightarrow> json_escape c = [c]"
    unfolding date_chars_def by (rule bspec)
qed

lemma concat_json_escape_plain:
  "set s \<subseteq> date_chars \<Longrightarrow> concat (map json_escape s) = s"
  by (induction s) (simp_all add: json_escape_plain)

lemma json_string_isoformat:
  "json_string (isoformat day) = [CHR 0x22] @ isoformat day @ [CHR 0x22]"
  by (simp add: json_string_def concat_json_escape_plain [OF isoformat_chars])

lemma record_line_format:
  "record_line dumps day data =
     ''{'' @ [CHR 0x22] @ ''day'' @ [CHR 0x22] @ '': '' @
       [CHR 0x22] @ isoformat day @ [CHR 0x22] @ '', '' @
       [CHR 0x22] @ ''data'' @ [CHR 0x22] @ '': '' @ dumps data @ ''}'' @ [CHR 0x0A]"
proof -
  have "json_string ''day'' = [CHR 0x22] @ ''day'' @ [CHR 0x22]"
    "json_string ''data'' = [CHR 0x22] @ ''data'' @ [CHR 0x22]"
    by (simp_all add: json_string_def json_escape_def)
  then show ?thesis
    by (simp add: record_line_def json_string_isoformat)
qed

subsection \<open>A request that succeeds at once\<close>

lemma backup_date_first_try:
  assumes "0 < RETRIES g" "api (served w) (device g) day = Inr reply"
  shows "backup_date g api day w =
    (reply, w\<lparr>served := Suc (served w),
                  trace := trace w @ [Call day, Request (device g) day, Return day reply]\<rparr>)"
  using assms
  by (simp add: backup_date_def backup_date_loop.simps [of g api day 0] emit_def request_def)

subsection \<open>Lines and newlines\<close>

lemma newline_not_date_char: "CHR 0x0A \<notin> date_chars"
  by (simp add: date_chars_def)

lemma newlines_record_line:
  assumes "CHR 0x0A \<notin> set (dumps data)"
  shows "count_list (record_line dumps day data) (CHR 0x0A) = 1"
    and "last (record_line dumps day data) = CHR 0x0A"
proof -
  have "CHR 0x0A \<notin> set (isoformat day)"
    using isoformat_chars [of day] newline_not_date_char by blast
  then have "count_list (isoformat day) (CHR 0x0A) = 0"
    "count_list (dumps data) (CHR 0x0A) = 0"
    using assms by simp_all
  then show "count_list (record_line dumps day data) (CHR 0x0A) = 1"
    by (simp add: record_line_format)
  show "last (record_line dumps day data) = CHR 0x0A"
    by (simp add: record_line_def)
qed

lemma newlines_batch_lines:
  assumes "\<forall>data. CHR 0x0A \<notin> set (dumps data)"
  shows "count_list (concat (batch_lines dumps batch)) (CHR 0x0A) = length batch"
proof (induction batch)
  case Nil
  show ?case by simp
next
  case (Cons item batch)
  obtain day data where item: "item = (day, data)"
    by (cases item)
  have "count_list (record_line dumps day data) (CHR 0x0A) = 1"
    using assms by (intro newlines_record_line) simp
  with Cons.IH show ?case
    by (simp add: item)
qed

lemma str_nat_no_newline: "CHR 0x0A \<notin> set (str_nat n)"
  using str_nat_chars [of n] newline_not_date_char by blast


subsection \<open>The text written, and traces without a return\<close>

lemma batch_lines_format:
  "batch_lines dumps batch =
     map (\<lambda>(day, data).
            ''{'' @ [CHR 0x22] @ ''day'' @ [CHR 0x22] @ '': '' @
            [CHR 0x22] @ isoformat day @ [CHR 0x22] @ '', '' @
            [CHR 0x22] @ ''data'' @ [CHR 0x22] @ '': '' @ dumps data @ ''}'' @
            [CHR 0x0A])
       batch"
proof -
  have "(\<lambda>(day, data). record_line dumps day data) =
        (\<lambda>(day, data).
            ''{'' @ [CHR 0x22] @ ''day'' @ [CHR 0x22] @ '': '' @
            [CHR 0x22] @ isoformat day @ [CHR 0x22] @ '', '' @
            [CHR 0x22] @ ''data'' @ [CHR 0x22] @ '': '' @ dumps data @ ''}'' @
            [CHR 0x0A])"
    by (simp only: record_line_format)
  then show ?thesis
    unfolding batch_lines_def by (rule arg_cong)
qed

lemma backup_reply_none:
  assumes "fst (backup_date g api day w) = None"
  shows "backup g api dumps [day] w = snd (backup_date g api day w)"
  using assms by (simp add: backup_def backup_body_cases)




subsection \<open>Evaluating a run\<close>

text \<open>The equations that compute a run on a concrete input, and those that render text.\<close>

lemma notebook_globals_simps [simp]:
  "BATCH_APPEND (notebook_globals dev) = 15"
  "RETRIES (notebook_globals dev) = 10"
  "BACKOFF (notebook_globals dev) = 2"
  "device (notebook_globals dev) = dev"
  by (simp_all add: notebook_globals_def)

lemmas run_defs = backup_def backup_body_def backup_date_def backup_date_loop.simps
  append_to_json_file_def file_open_def file_write_def file_close_def emit_def request_def
  content_def emitted_def failed_attempt_def batch_lines_def

lemmas text_defs = record_line_def json_string_def json_escape_def isoformat_def ord2ymd_def
  Let_def DAYS_BEFORE_MONTH_def DAYS_IN_MONTH_def zero_pad_def str_nat.simps digit_def
  error_message_def failed_message_def

lemma isoformat_example: "isoformat 738886 = ''2024-01-01''"
  by (simp add: text_defs)

lemma record_line_example:
  "record_line str_nat 738886 7 =
     ''{'' @ [CHR 0x22] @ ''day'' @ [CHR 0x22] @ '': '' @ [CHR 0x22] @ ''2024-01-01'' @
     [CHR 0x22] @ '', '' @ [CHR 0x22] @ ''data'' @ [CHR 0x22] @ '': 7}'' @ [CHR 0x0A]"
  by (simp add: record_line_def isoformat_example json_string_def json_escape_def
        str_nat.simps digit_def)

lemma failed_message_example:
  "failed_message (notebook_globals dev) 738886 =
     ''Failed to fetch data for 2024-01-01 after 10 retries''"
  by (simp add: failed_message_def isoformat_example notebook_globals_def str_nat.simps digit_def)

lemma str_nat_example: "str_nat 5 = ''5''"
  by (simp add: str_nat.simps digit_def)



lemma isoformat_example_4: "isoformat 738887 = ''2024-01-02''"
  by (simp add: text_defs)

lemma isoformat_example_5: "isoformat 738905 = ''2024-01-20''"
  by (simp add: text_defs)

lemma str_nat_example_0: "str_nat 0 = ''0''"
  by (simp add: str_nat.simps digit_def)


lemma str_nat_example_19: "str_nat 19 = ''19''"
  by (simp add: str_nat.simps digit_def)


lemma upt_twenty:
  "[0 ..< 20] = [0, 1, 2, 3, 4, 5, 6, 7, 8, 9, 10, 11, 12, 13, 14, 15, 16, 17, 18, 19 :: nat]"
  by (simp add: upt_rec)

subsection \<open>Twenty days, every request answered\<close>

lemma backup_twenty_days_run:
  assumes T: "BATCH_APPEND g = 15" and R: "0 < RETRIES g"
    and ok: "\<forall>n d. api n (device g) d = Inr (Some (payload n d))"
    and new: "out_file w = None"
  shows "(let L = map (\<lambda>k. record_line dumps (s + int k) (payload (served w + k) (s + int k)))
                   [0 ..< 20];
              w' = backup g api dumps (dates s (s + 20)) w
          in length L = 20
           \<and> written (emitted w w') = L
           \<and> file_ops (emitted w w') =
               [Open] @ map Write (take 15 L) @ [Close] @ [Open] @ map Write (drop 15 L) @ [Close]
           \<and> out_file w' = Some (concat L))"
proof -
  have bd: "backup_date g api day w =
    (Some (payload (served w) day), w\<lparr>served := Suc (served w),
       trace := trace w @ [Call day, Request (device g) day, Return day (Some (payload (served w) day))]\<rparr>)"
    for day and w :: "'a world"
    using R ok by (intro backup_date_first_try) simp_all
  have L: "[0 ..< 20] = [0, 1, 2, 3, 4, 5, 6, 7, 8, 9, 10, 11, 12, 13, 14, 15, 16, 17, 18, 19 :: nat]"
    by (simp add: upt_rec)
  show ?thesis
    unfolding Let_def L dates_twenty
    apply (simp add: backup_def backup_body_def bd T new append_to_json_file_def file_open_def
          file_write_def file_close_def emit_def content_def emitted_def Let_def)
    apply (simp add: numeral_eq_Suc)
    done
qed

lemma twenty_days_lines:
  assumes T: "BATCH_APPEND g = 15" and R: "0 < RETRIES g"
    and ok: "\<forall>n d. api n (device g) d = Inr (Some (payload n d))"
    and new: "out_file w = None"
  shows "(let L = map (\<lambda>k. record_line dumps (s + int k) (payload (served w + k) (s + int k)))
                   [0 ..< 20];
              w' = backup g api dumps (dates s (s + 20)) w
          in length L = 20
           \<and> written (emitted w w') = L
           \<and> file_ops (emitted w w') =
               [Open] @ map Write (take 15 L) @ [Close] @ [Open] @ map Write (drop 15 L) @ [Close]
           \<and> out_file w' = Some (concat L)
           \<and> ((\<forall>data. CHR 0x0A \<notin> set (dumps data)) \<longrightarrow>
                count_list (concat L) (CHR 0x0A) = 20))"
proof -
  let ?L = "map (\<lambda>k. record_line dumps (s + int k) (payload (served w + k) (s + int k))) [0 ..< 20]"
  let ?b = "map (\<lambda>k. (s + int k, payload (served w + k) (s + int k))) [0 ..< 20]"
  have lines: "?L = batch_lines dumps ?b"
    by (simp add: batch_lines_def comp_def del: upt_Suc)
  have "count_list (concat ?L) (CHR 0x0A) = 20" if "\<forall>data. CHR 0x0A \<notin> set (dumps data)"
    unfolding lines using that by (simp add: newlines_batch_lines del: upt_Suc)
  then show ?thesis
    using backup_twenty_days_run [where g = g and api = api and payload = payload and w = w
        and dumps = dumps and s = s] T R ok new
    by (simp add: Let_def del: upt_Suc)
qed

subsection \<open>The batch during a run\<close>

lemma batch_bounded_lines:
  assumes pos: "0 < BATCH_APPEND g"
    and pre: "backup_loop g api dumps pre ([], w) = (batch, w1)"
    and fetch: "backup_date g api day w1 = (result, w2)"
  shows "length batch < BATCH_APPEND g
       \<and> backup_loop g api dumps (pre @ day # post) ([], w) =
           backup_loop g api dumps post (backup_body g api dumps day (batch, w1))
       \<and> (case result of
             None \<Rightarrow> backup_body g api dumps day (batch, w1) = (batch, w2)
           | Some data \<Rightarrow>
               length (dict_setitem batch day data) \<le> BATCH_APPEND g
             \<and> (if length (dict_setitem batch day data) = BATCH_APPEND g
                then backup_body g api dumps day (batch, w1) =
                       ([], append_to_json_file dumps (dict_setitem batch day data) w2)
                   \<and> emitted w2 (append_to_json_file dumps (dict_setitem batch day data) w2) =
                       Open # map Write (batch_lines dumps (dict_setitem batch day data)) @ [Close]
                   \<and> content (append_to_json_file dumps (dict_setitem batch day data) w2) =
                       content w2 @ concat (batch_lines dumps (dict_setitem batch day data))
                   \<and> ((\<forall>data. CHR 0x0A \<notin> set (dumps data)) \<longrightarrow>
                        (\<forall>line \<in> set (batch_lines dumps (dict_setitem batch day data)).
                           count_list line (CHR 0x0A) = 1 \<and> last line = CHR 0x0A))
                else backup_body g api dumps day (batch, w1) = (dict_setitem batch day data, w2)
                   \<and> length (dict_setitem batch day data) < BATCH_APPEND g))"
proof -
  have size: "length batch < BATCH_APPEND g"
    using backup_loop_batch_size [of g "[]" api dumps pre w] pos pre by simp
  have loop: "backup_loop g api dumps (pre @ day # post) ([], w) =
           backup_loop g api dumps post (backup_body g api dumps day (batch, w1))"
    by (simp add: backup_loop_append pre)
  have rest: "(case result of
             None \<Rightarrow> backup_body g api dumps day (batch, w1) = (batch, w2)
           | Some data \<Rightarrow>
               length (dict_setitem batch day data) \<le> BATCH_APPEND g
             \<and> (if length (dict_setitem batch day data) = BATCH_APPEND g
                then backup_body g api dumps day (batch, w1) =
                       ([], append_to_json_file dumps (dict_setitem batch day data) w2)
                   \<and> emitted w2 (append_to_json_file dumps (dict_setitem batch day data) w2) =
                       Open # map Write (batch_lines dumps (dict_setitem batch day data)) @ [Close]
                   \<and> content (append_to_json_file dumps (dict_setitem batch day data) w2) =
                       content w2 @ concat (batch_lines dumps (dict_setitem batch day data))
                   \<and> ((\<forall>data. CHR 0x0A \<notin> set (dumps data)) \<longrightarrow>
                        (\<forall>line \<in> set (batch_lines dumps (dict_setitem batch day data)).
                           count_list line (CHR 0x0A) = 1 \<and> last line = CHR 0x0A))
                else backup_body g api dumps day (batch, w1) = (dict_setitem batch day data, w2)
                   \<and> length (dict_setitem batch day data) < BATCH_APPEND g))"
  proof (cases result)
    case None
    then show ?thesis
      by (simp add: backup_body_cases fetch)
  next
    case (Some data)
    let ?b = "dict_setitem batch day data"
    have le: "length ?b \<le> BATCH_APPEND g"
      using length_dict_setitem [of batch day data] size by simp
    have em: "emitted w2 (append_to_json_file dumps ?b w2) =
                Open # map Write (batch_lines dumps ?b) @ [Close]"
      using append_to_json_file_effect [of dumps ?b w2] by (intro emitted_append) simp
    have nl: "(\<forall>data. CHR 0x0A \<notin> set (dumps data)) \<longrightarrow>
              (\<forall>line \<in> set (batch_lines dumps ?b).
                 count_list line (CHR 0x0A) = 1 \<and> last line = CHR 0x0A)"
      by (auto simp add: batch_lines_def newlines_record_line)
    show ?thesis
      using le em nl append_to_json_file_effect [of dumps ?b w2]
      by (simp add: Some backup_body_cases fetch)
  qed
  from size loop rest show ?thesis
    by (intro conjI)
qed

section \<open>The claims\<close>

text \<open>
  C1. For every run of \<^verbatim>\<open>backup\<close> over a list of distinct days: the days handed to
  \<^verbatim>\<open>backup_date\<close> are exactly the days of the list, each one once, and each of these
  calls returns; the strings
  written to the output file are the complete record lines of the days for which
  \<^verbatim>\<open>backup_date\<close> returned data, one write for each such day and no two for the same
  day; a day for which \<^verbatim>\<open>backup_date\<close> gave up (returned \<^verbatim>\<open>None\<close>) is not among
  them; and the file ends up as what it was, followed by those lines.
\<close>

theorem backup_each_day_once:
  assumes "distinct date_range"
  shows "(let E = emitted w (backup g api dumps date_range w) in
           called E = date_range
         \<and> (\<forall>day \<in> set date_range. count_list (called E) day = 1)
         \<and> map fst (returned E) = date_range
         \<and> written E = batch_lines dumps (fetched E)
         \<and> distinct (map fst (fetched E))
         \<and> fst ` set (fetched E) \<inter> set (gave_up E) = {}
         \<and> content (backup g api dumps date_range w) =
             content w @ concat (batch_lines dumps (fetched E)))"
proof -
  from backup_effect [OF assms, of g api dumps w] obtain E where
    E: "trace (backup g api dumps date_range w) = trace w @ E"
       "called E = date_range" "map fst (returned E) = date_range"
       "written E = batch_lines dumps (fetched E)"
       "content (backup g api dumps date_range w) = content w @ concat (written E)"
    by (elim exE conjE) (rule that)
  have em: "emitted w (backup g api dumps date_range w) = E"
    using E(1) by (rule emitted_append)
  have once: "count_list date_range day = 1" if "day \<in> set date_range" for day
    using assms that by (induction date_range) auto
  have d: "distinct (map fst (fetched E))"
    using assms by (simp add: fetched_filter E(3) [symmetric] distinct_map_filter)
  have dj: "fst ` set (fetched E) \<inter> set (gave_up E) = {}"
    using assms by (intro fetched_gave_up_disjoint) (simp add: E(3))
  show ?thesis
    unfolding Let_def em
    using E(2,3,4,5) once d dj by simp
qed

theorem backup_each_day_once_witness:
  "distinct [738886, 738887, 738888 :: int]
  \<and> called (emitted \<lparr>served = 0, trace = [], out_file = None\<rparr>
        (backup (notebook_globals ''dev'')
           (\<lambda>n dev d. if d = 738887 then Inl ''timeout'' else Inr (Some (5 :: nat))) str_nat
           [738886, 738887, 738888] \<lparr>served = 0, trace = [], out_file = None\<rparr>))
      = [738886, 738887, 738888]
  \<and> gave_up (emitted \<lparr>served = 0, trace = [], out_file = None\<rparr>
        (backup (notebook_globals ''dev'')
           (\<lambda>n dev d. if d = 738887 then Inl ''timeout'' else Inr (Some (5 :: nat))) str_nat
           [738886, 738887, 738888] \<lparr>served = 0, trace = [], out_file = None\<rparr>))
      = [738887]
  \<and> fetched (emitted \<lparr>served = 0, trace = [], out_file = None\<rparr>
        (backup (notebook_globals ''dev'')
           (\<lambda>n dev d. if d = 738887 then Inl ''timeout'' else Inr (Some (5 :: nat))) str_nat
           [738886, 738887, 738888] \<lparr>served = 0, trace = [], out_file = None\<rparr>))
      = [(738886, 5), (738888, 5)]"
  using backup_each_day_once [of "[738886, 738887, 738888]"
     "\<lparr>served = 0, trace = [], out_file = None\<rparr>" "notebook_globals ''dev''"
     "\<lambda>n dev d. if d = 738887 then Inl ''timeout'' else Inr (Some (5 :: nat))" str_nat]
  by (simp add: run_defs)

text \<open>
  C2. While \<^verbatim>\<open>backup\<close> runs with a threshold of at least one entry, the batch at the
  head of every pass of the loop holds fewer entries than the threshold; after
  \<^verbatim>\<open>batch[day] = data\<close> it holds at most the threshold; when it holds exactly the threshold
  it is flushed in that same pass: one \<^verbatim>\<open>open\<close>, then for each entry, in the batch's
  iteration order, one write of the JSON object with the members \<^verbatim>\<open>day\<close> (the ISO form
  of the entry's day) and \<^verbatim>\<open>data\<close> (its payload as \<^verbatim>\<open>dumps\<close> renders it) followed by a
  newline, then one \<^verbatim>\<open>close\<close>; the file grows by exactly those lines, each of them ending
  in its only newline when \<^verbatim>\<open>dumps\<close> puts none in a payload, and the pass ends with the
  empty batch; below the threshold nothing is written in that pass. Here \<open>pre\<close> is the
  part of the range already processed and \<open>day\<close> the day of the pass.
\<close>

theorem backup_batch_bounded:
  assumes pos: "0 < BATCH_APPEND g"
    and pre: "backup_loop g api dumps pre ([], w) = (batch, w1)"
    and fetch: "backup_date g api day w1 = (result, w2)"
  shows "length batch < BATCH_APPEND g
       \<and> backup_loop g api dumps (pre @ day # post) ([], w) =
           backup_loop g api dumps post (backup_body g api dumps day (batch, w1))
       \<and> (case result of
             None \<Rightarrow> backup_body g api dumps day (batch, w1) = (batch, w2)
           | Some data \<Rightarrow>
               length (dict_setitem batch day data) \<le> BATCH_APPEND g
             \<and> (if length (dict_setitem batch day data) = BATCH_APPEND g
                then backup_body g api dumps day (batch, w1) =
                       ([], append_to_json_file dumps (dict_setitem batch day data) w2)
                   \<and> emitted w2 (append_to_json_file dumps (dict_setitem batch day data) w2) =
                       Open #
                       map Write
                         (map (\<lambda>(day, data).
                                 ''{'' @ [CHR 0x22] @ ''day'' @ [CHR 0x22] @ '': '' @
                                 [CHR 0x22] @ isoformat day @ [CHR 0x22] @ '', '' @
                                 [CHR 0x22] @ ''data'' @ [CHR 0x22] @ '': '' @ dumps data @ ''}'' @
                                 [CHR 0x0A])
                            (dict_setitem batch day data)) @
                       [Close]
                   \<and> content (append_to_json_file dumps (dict_setitem batch day data) w2) =
                       content w2 @
                       concat
                         (map (\<lambda>(day, data).
                                 ''{'' @ [CHR 0x22] @ ''day'' @ [CHR 0x22] @ '': '' @
                                 [CHR 0x22] @ isoformat day @ [CHR 0x22] @ '', '' @
                                 [CHR 0x22] @ ''data'' @ [CHR 0x22] @ '': '' @ dumps data @ ''}'' @
                                 [CHR 0x0A])
                            (dict_setitem batch day data))
                   \<and> ((\<forall>data. CHR 0x0A \<notin> set (dumps data)) \<longrightarrow>
                        (\<forall>line \<in> set
                           (map (\<lambda>(day, data).
                                   ''{'' @ [CHR 0x22] @ ''day'' @ [CHR 0x22] @ '': '' @
                                   [CHR 0x22] @ isoformat day @ [CHR 0x22] @ '', '' @
                                   [CHR 0x22] @ ''data'' @ [CHR 0x22] @ '': '' @ dumps data @ ''}'' @
                                   [CHR 0x0A])
                              (dict_setitem batch day data)).
                           count_list line (CHR 0x0A) = 1 \<and> last line = CHR 0x0A))
                else backup_body g api dumps day (batch, w1) = (dict_setitem batch day data, w2)
                   \<and> length (dict_setitem batch day data) < BATCH_APPEND g))"
  using batch_bounded_lines [OF pos pre fetch, of post, unfolded batch_lines_format] .

theorem backup_batch_bounded_witness:
  "0 < BATCH_APPEND ((notebook_globals ''dev'')\<lparr>BATCH_APPEND := 2\<rparr>)
   \<and> (\<forall>data. CHR 0x0A \<notin> set (str_nat data))
   \<and> backup_loop ((notebook_globals ''dev'')\<lparr>BATCH_APPEND := 2\<rparr>)
        (\<lambda>n dev d. Inr (Some (5 :: nat)))
        str_nat [738886] ([], \<lparr>served = 0, trace = [], out_file = None\<rparr>) =
       ([(738886, 5)],
        \<lparr>served = 1,
          trace = [Call 738886, Request ''dev'' 738886, Return 738886 (Some 5)],
          out_file = None\<rparr>)
   \<and> backup_body ((notebook_globals ''dev'')\<lparr>BATCH_APPEND := 2\<rparr>)
        (\<lambda>n dev d. Inr (Some (5 :: nat)))
        str_nat 738887
        ([(738886, 5)],
         \<lparr>served = 1,
           trace = [Call 738886, Request ''dev'' 738886, Return 738886 (Some 5)],
           out_file = None\<rparr>) =
       ([],
        \<lparr>served = 2,
          trace = [Call 738886, Request ''dev'' 738886, Return 738886 (Some 5),
                   Call 738887, Request ''dev'' 738887, Return 738887 (Some 5),
                   Open,
                   Write (''{'' @ [CHR 0x22] @ ''day'' @ [CHR 0x22] @ '': '' @ [CHR 0x22] @
                          ''2024-01-01'' @ [CHR 0x22] @ '', '' @ [CHR 0x22] @ ''data'' @
                          [CHR 0x22] @ '': 5}'' @ [CHR 0x0A]),
                   Write (''{'' @ [CHR 0x22] @ ''day'' @ [CHR 0x22] @ '': '' @ [CHR 0x22] @
                          ''2024-01-02'' @ [CHR 0x22] @ '', '' @ [CHR 0x22] @ ''data'' @
                          [CHR 0x22] @ '': 5}'' @ [CHR 0x0A]),
                   Close],
          out_file = Some
            (''{'' @ [CHR 0x22] @ ''day'' @ [CHR 0x22] @ '': '' @ [CHR 0x22] @
             ''2024-01-01'' @ [CHR 0x22] @ '', '' @ [CHR 0x22] @ ''data'' @
             [CHR 0x22] @ '': 5}'' @ [CHR 0x0A] @
             ''{'' @ [CHR 0x22] @ ''day'' @ [CHR 0x22] @ '': '' @ [CHR 0x22] @
             ''2024-01-02'' @ [CHR 0x22] @ '', '' @ [CHR 0x22] @ ''data'' @
             [CHR 0x22] @ '': 5}'' @ [CHR 0x0A])\<rparr>)"
  using backup_batch_bounded [where g = "(notebook_globals ''dev'')\<lparr>BATCH_APPEND := 2\<rparr>"
      and api = "\<lambda>n dev d. Inr (Some (5 :: nat))"
      and dumps = str_nat and pre = "[738886]" and day = 738887 and post = "[]"
      and w = "\<lparr>served = 0, trace = [], out_file = None\<rparr>"
      and batch = "[(738886, 5)]"
      and ?w1.0 = "\<lparr>served = 1,
          trace = [Call 738886, Request ''dev'' 738886, Return 738886 (Some 5)],
          out_file = None\<rparr>"
      and result = "Some 5"
      and ?w2.0 = "\<lparr>served = 2,
          trace = [Call 738886, Request ''dev'' 738886, Return 738886 (Some 5),
                   Call 738887, Request ''dev'' 738887, Return 738887 (Some 5)],
          out_file = None\<rparr>"]
  by (simp add: run_defs upt_rec record_line_format isoformat_example isoformat_example_4
        str_nat_example str_nat_no_newline)

text \<open>
  C3. The sleep after the \<open>n\<close>-th failed attempt of a call of \<^verbatim>\<open>backup_date\<close> lasts
  \<^verbatim>\<open>BACKOFF * n\<close> seconds. When the first \<open>k\<close> attempts raise and attempt \<open>k + 1\<close>
  returns, with \<open>k\<close> below \<^verbatim>\<open>RETRIES\<close>, the call returns what that attempt returned,
  after exactly \<open>k\<close> sleeps of \<^verbatim>\<open>BACKOFF * 1\<close>, ..., \<^verbatim>\<open>BACKOFF * k\<close>; and when what
  it returned is a payload (\<open>Some data\<close>, not \<^verbatim>\<open>None\<close>), a backup of that single day
  writes the day's record exactly once. The scenario of the specification is \<open>k = 9\<close>
  with the notebook's \<^verbatim>\<open>RETRIES = 10\<close>.
\<close>

theorem backup_date_linear_backoff:
  assumes "k < RETRIES g"
    and "\<forall>i < k. api (served w + i) (device g) day = Inl (e i)"
    and "api (served w + k) (device g) day = Inr reply"
  shows "fst (backup_date g api day w) = reply
       \<and> emitted w (snd (backup_date g api day w)) =
           Call day # concat (map (\<lambda>i. failed_attempt g day (i + 1) (e i)) [0 ..< k]) @
           [Request (device g) day, Return day reply]
       \<and> sleeps (emitted w (snd (backup_date g api day w))) =
           map (\<lambda>attempt. BACKOFF g * attempt) [1 ..< k + 1]
       \<and> (\<forall>data. reply = Some data \<longrightarrow>
             written (emitted w (backup g api dumps [day] w)) =
               [''{'' @ [CHR 0x22] @ ''day'' @ [CHR 0x22] @ '': '' @
                [CHR 0x22] @ isoformat day @ [CHR 0x22] @ '', '' @
                [CHR 0x22] @ ''data'' @ [CHR 0x22] @ '': '' @ dumps data @ ''}'' @
                [CHR 0x0A]]
           \<and> content (backup g api dumps [day] w) =
               content w @
               ''{'' @ [CHR 0x22] @ ''day'' @ [CHR 0x22] @ '': '' @
               [CHR 0x22] @ isoformat day @ [CHR 0x22] @ '', '' @
               [CHR 0x22] @ ''data'' @ [CHR 0x22] @ '': '' @ dumps data @ ''}'' @
               [CHR 0x0A])"
proof -
  let ?w1 = "snd (backup_date g api day w)"
  let ?E = "Call day # concat (map (\<lambda>i. failed_attempt g day (i + 1) (e i)) [0 ..< k]) @
           [Request (device g) day, Return day reply]"
  from assms have f: "fst (backup_date g api day w) = reply"
    and t: "trace ?w1 = trace w @ ?E" and o: "out_file ?w1 = out_file w"
    by (simp_all add: backup_date_success)
  have em: "emitted w ?w1 = ?E"
    using t by (rule emitted_append)
  have "sleeps ?E = map (\<lambda>i. BACKOFF g * (i + 1)) [0 ..< k]"
    by (simp add: sleeps_failed_attempts)
  also have "\<dots> = map (\<lambda>attempt. BACKOFF g * attempt) [1 ..< k + 1]"
    by (rule map_shift_upt)
  finally have sl: "sleeps ?E = map (\<lambda>attempt. BACKOFF g * attempt) [1 ..< k + 1]" .
  have c1: "content ?w1 = content w"
    using o by (simp add: content_def)
  have rec: "written (emitted w (backup g api dumps [day] w)) = [record_line dumps day data]
           \<and> content (backup g api dumps [day] w) = content w @ record_line dumps day data"
    if "reply = Some data" for data
  proof -
    let ?w2 = "append_to_json_file dumps [(day, data)] ?w1"
    have b: "backup g api dumps [day] w = ?w2"
      using f that by (intro backup_single) simp
    have "trace ?w2 = trace w @ (?E @ [Open, Write (record_line dumps day data), Close])"
      using append_to_json_file_effect [of dumps "[(day, data)]" ?w1] t by simp
    then have em2: "emitted w ?w2 = ?E @ [Open, Write (record_line dumps day data), Close]"
      by (rule emitted_append)
    have wr: "written (?E @ [Open, Write (record_line dumps day data), Close]) =
              [record_line dumps day data]"
      by (simp add: written_failed_attempts)
    have ct: "content ?w2 = content w @ record_line dumps day data"
      using append_to_json_file_effect [of dumps "[(day, data)]" ?w1] c1 by simp
    show ?thesis
      unfolding b em2 using wr ct by simp
  qed
  show ?thesis
    unfolding em using f sl rec [unfolded record_line_format] by simp
qed

theorem backup_date_linear_backoff_witness:
  "(9 :: nat) < RETRIES (notebook_globals ''dev'')
   \<and> fst (backup_date (notebook_globals ''dev'')
          (\<lambda>n dev d. if n < 9 then Inl ''timeout'' else Inr (Some (7 :: nat))) 738886
          \<lparr>served = 0, trace = [], out_file = None\<rparr>) = Some 7
   \<and> sleeps (emitted \<lparr>served = 0, trace = [], out_file = None\<rparr>
        (snd (backup_date (notebook_globals ''dev'')
          (\<lambda>n dev d. if n < 9 then Inl ''timeout'' else Inr (Some (7 :: nat))) 738886
          \<lparr>served = 0, trace = [], out_file = None\<rparr>))) = [2, 4, 6, 8, 10, 12, 14, 16, 18]
   \<and> written (emitted \<lparr>served = 0, trace = [], out_file = None\<rparr>
        (backup (notebook_globals ''dev'')
          (\<lambda>n dev d. if n < 9 then Inl ''timeout'' else Inr (Some (7 :: nat))) str_nat [738886]
          \<lparr>served = 0, trace = [], out_file = None\<rparr>)) =
       [''{'' @ [CHR 0x22] @ ''day'' @ [CHR 0x22] @ '': '' @ [CHR 0x22] @ ''2024-01-01'' @
        [CHR 0x22] @ '', '' @ [CHR 0x22] @ ''data'' @ [CHR 0x22] @ '': 7}'' @ [CHR 0x0A]]"
  using backup_date_linear_backoff [where k = 9 and g = "notebook_globals ''dev''"
      and api = "\<lambda>n dev d. if n < 9 then Inl ''timeout'' else Inr (Some (7 :: nat))"
      and w = "\<lparr>served = 0, trace = [], out_file = None\<rparr>" and day = 738886
      and e = "\<lambda>i. ''timeout''" and reply = "Some 7" and dumps = str_nat]
  by (simp add: run_defs upt_rec record_line_example failed_message_example)



text \<open>
  C5. For a range of 20 consecutive days on which every request succeeds at once with a
  payload, with the flush threshold 15, at least one attempt allowed and no output file
  before the run: \<^verbatim>\<open>backup\<close> writes exactly 20 records, one for each day in order, in
  exactly two flushes, the first of 15 lines and the second, after the loop, of the
  remaining 5; the file then consists of those 20 lines.
\<close>

theorem backup_twenty_days:
  assumes T: "BATCH_APPEND g = 15" and R: "0 < RETRIES g"
    and ok: "\<forall>n d. api n (device g) d = Inr (Some (payload n d))"
    and new: "out_file w = None"
  shows "(let L = map (\<lambda>k.
                    ''{'' @ [CHR 0x22] @ ''day'' @ [CHR 0x22] @ '': '' @
                    [CHR 0x22] @ isoformat (s + int k) @ [CHR 0x22] @ '', '' @
                    [CHR 0x22] @ ''data'' @ [CHR 0x22] @ '': '' @
                    dumps (payload (served w + k) (s + int k)) @ ''}'' @ [CHR 0x0A])
                   [0 ..< 20];
              w' = backup g api dumps (dates s (s + 20)) w
          in length L = 20
           \<and> written (emitted w w') = L
           \<and> file_ops (emitted w w') =
               [Open] @ map Write (take 15 L) @ [Close] @ [Open] @ map Write (drop 15 L) @ [Close]
           \<and> out_file w' = Some (concat L)
           \<and> ((\<forall>data. CHR 0x0A \<notin> set (dumps data)) \<longrightarrow>
                count_list (concat L) (CHR 0x0A) = 20))"
  using twenty_days_lines [where g = g and api = api and payload = payload and w = w
        and dumps = dumps and s = s, unfolded record_line_format] T R ok new
  by (simp only: simp_thms)

theorem backup_twenty_days_witness:
  "BATCH_APPEND (notebook_globals ''dev'') = 15
   \<and> 0 < RETRIES (notebook_globals ''dev'')
   \<and> out_file (new_world :: nat world) = None
   \<and> (\<forall>data. CHR 0x0A \<notin> set (str_nat data))
   \<and> length (written (emitted new_world
        (backup (notebook_globals ''dev'') (\<lambda>n dev d. Inr (Some n)) str_nat
           (dates 738886 (738886 + 20)) new_world))) = 20
   \<and> written (emitted new_world
        (backup (notebook_globals ''dev'') (\<lambda>n dev d. Inr (Some n)) str_nat
           (dates 738886 (738886 + 20)) new_world)) ! 0 =
       ''{'' @ [CHR 0x22] @ ''day'' @ [CHR 0x22] @ '': '' @ [CHR 0x22] @ ''2024-01-01'' @
        [CHR 0x22] @ '', '' @ [CHR 0x22] @ ''data'' @ [CHR 0x22] @ '': 0}'' @ [CHR 0x0A]
   \<and> written (emitted new_world
        (backup (notebook_globals ''dev'') (\<lambda>n dev d. Inr (Some n)) str_nat
           (dates 738886 (738886 + 20)) new_world)) ! 19 =
       ''{'' @ [CHR 0x22] @ ''day'' @ [CHR 0x22] @ '': '' @ [CHR 0x22] @ ''2024-01-20'' @
        [CHR 0x22] @ '', '' @ [CHR 0x22] @ ''data'' @ [CHR 0x22] @ '': 19}'' @ [CHR 0x0A]
   \<and> length (filter (\<lambda>e. e = Open) (file_ops (emitted new_world
        (backup (notebook_globals ''dev'') (\<lambda>n dev d. Inr (Some n)) str_nat
           (dates 738886 (738886 + 20)) new_world)))) = 2
   \<and> file_ops (emitted new_world
        (backup (notebook_globals ''dev'') (\<lambda>n dev d. Inr (Some n)) str_nat
           (dates 738886 (738886 + 20)) new_world)) ! 16 = Close
   \<and> file_ops (emitted new_world
        (backup (notebook_globals ''dev'') (\<lambda>n dev d. Inr (Some n)) str_nat
           (dates 738886 (738886 + 20)) new_world)) ! 17 = Open
   \<and> length (file_ops (emitted new_world
        (backup (notebook_globals ''dev'') (\<lambda>n dev d. Inr (Some n)) str_nat
           (dates 738886 (738886 + 20)) new_world))) = 24
   \<and> count_list (content
        (backup (notebook_globals ''dev'') (\<lambda>n dev d. Inr (Some n)) str_nat
           (dates 738886 (738886 + 20)) (new_world :: nat world))) (CHR 0x0A) = 20"
  using backup_twenty_days [where g = "notebook_globals ''dev''"
      and api = "\<lambda>n dev d. Inr (Some n)"
      and payload = "\<lambda>n d. n" and w = "new_world :: nat world" and dumps = str_nat
      and s = 738886]
  by (simp add: new_world_def Let_def upt_twenty str_nat_no_newline content_def
        isoformat_example isoformat_example_5 str_nat_example_0 str_nat_example_19)




text \<open>
  C7. \<^verbatim>\<open>append_to_json_file\<close> with an empty batch opens the file and closes it, and does
  nothing else: no write, so no line and no empty line; the content of the file is what
  it was. The file exists afterwards, empty if it was not there: that is the effect of
  opening it in append mode. Doing it twice changes nothing more.
\<close>

theorem flush_empty_batch:
  "emitted w (append_to_json_file dumps [] w) = [Open, Close]
   \<and> written (emitted w (append_to_json_file dumps [] w)) = []
   \<and> content (append_to_json_file dumps [] w) = content w
   \<and> out_file (append_to_json_file dumps [] w) = Some (content w)
   \<and> served (append_to_json_file dumps [] w) = served w
   \<and> content (append_to_json_file dumps [] (append_to_json_file dumps [] w)) = content w"
proof -
  have "trace (append_to_json_file dumps [] w) = trace w @ [Open, Close]"
    using append_to_json_file_effect [of dumps "[]" w] by simp
  then have "emitted w (append_to_json_file dumps [] w) = [Open, Close]"
    by (rule emitted_append)
  then show ?thesis
    using append_to_json_file_effect [of dumps "[]" w]
      append_to_json_file_effect [of dumps "[]" "append_to_json_file dumps [] w"]
    by simp
qed

text \<open>
  C8. The default range from a day to the same day is empty, and \<^verbatim>\<open>backup\<close> of an empty
  range leaves the world as it was: no event at all, hence no flush, and the output file
  neither created nor written.
\<close>

theorem backup_empty_range:
  "dates s s = []
   \<and> backup g api dumps (dates s s) w = w
   \<and> emitted w (backup g api dumps (dates s s) w) = []
   \<and> file_ops (emitted w (backup g api dumps (dates s s) w)) = []
   \<and> out_file (backup g api dumps (dates s s) w) = out_file w"
  by (simp add: dates_def backup_def emitted_def)

text \<open>
  C9. The default range \<^verbatim>\<open>dates\<close> for the association date \<open>s\<close> and today \<open>e\<close> is
  the list of the days \<open>s\<close>, \<open>s + 1\<close>, ..., \<open>e - 1\<close>: it has \<open>e - s\<close> entries, the
  \<open>k\<close>-th is \<open>s + k\<close>, it holds every day from \<open>s\<close> inclusive to \<open>e\<close> exclusive once
  and in ascending order, its last day is yesterday, it is empty when \<open>s\<close> is \<open>e\<close>, and all
  its days are valid dates when \<open>s\<close> and \<open>e\<close> are.
\<close>

theorem dates_enumeration:
  "dates s e = [s .. e - 1]
   \<and> length (dates s e) = nat (e - s)
   \<and> (\<forall>k < nat (e - s). dates s e ! k = s + int k)
   \<and> set (dates s e) = {s ..< e}
   \<and> distinct (dates s e) \<and> sorted (dates s e)
   \<and> (s < e \<longrightarrow> hd (dates s e) = s \<and> last (dates s e) = e - 1)
   \<and> dates s s = []
   \<and> (valid_date s \<and> valid_date e \<longrightarrow> (\<forall>day \<in> set (dates s e). valid_date day))"
proof -
  have len: "length (dates s e) = nat (e - s)"
    by (simp add: dates_def)
  have nth: "\<forall>k < nat (e - s). dates s e ! k = s + int k"
    by (simp add: dates_def)
  have st: "set (dates s e) = {s ..< e}"
    unfolding dates_upto set_upto by (rule atLeastAtMost_eq_atLeastLessThan)
  have ds: "distinct (dates s e)" "sorted (dates s e)"
    unfolding dates_upto by (rule distinct_upto, rule sorted_upto)
  have hl: "s < e \<longrightarrow> hd (dates s e) = s \<and> last (dates s e) = e - 1"
  proof
    assume "s < e"
    then have le: "s \<le> e - 1" by simp
    have "dates s e = s # [s + 1 .. e - 1]"
      unfolding dates_upto using le by (rule upto_rec1)
    then have h: "hd (dates s e) = s"
      by simp
    have "dates s e = [s .. e - 1 - 1] @ [e - 1]"
      unfolding dates_upto using le by (rule upto_rec2)
    then have l: "last (dates s e) = e - 1"
      by simp
    from h l show "hd (dates s e) = s \<and> last (dates s e) = e - 1" ..
  qed
  have emp: "dates s s = []"
    by (simp add: dates_def)
  have valid: "valid_date s \<and> valid_date e \<longrightarrow> (\<forall>day \<in> set (dates s e). valid_date day)"
    unfolding st valid_date_def by simp
  from dates_upto len nth st ds hl emp valid show ?thesis
    by (intro conjI)
qed

theorem dates_enumeration_witness:
  "(738886 :: int) < 738889
   \<and> dates 738886 738889 = [738886, 738887, 738888]
   \<and> length (dates 738886 738889) = 3
   \<and> last (dates 738886 738889) = 738888
   \<and> dates 738886 738886 = []"
  using dates_enumeration [of 738886 738889]
  by (simp add: dates_def upt_rec)

text \<open>
  C10. When all \<^verbatim>\<open>RETRIES\<close> attempts raise, \<^verbatim>\<open>backup_date\<close> sends \<^verbatim>\<open>RETRIES\<close>
  requests and sleeps \<^verbatim>\<open>RETRIES\<close> times, for \<^verbatim>\<open>BACKOFF * 1\<close>, ...,
  \<^verbatim>\<open>BACKOFF * RETRIES\<close> seconds; the last sleep follows the last failed attempt, and only
  then the failure message is printed and \<^verbatim>\<open>None\<close> returned.
\<close>

theorem backup_date_exhausted:
  assumes "\<forall>i < RETRIES g. api (served w + i) (device g) day = Inl (e i)"
  shows "fst (backup_date g api day w) = None
       \<and> emitted w (snd (backup_date g api day w)) =
           Call day #
           concat (map (\<lambda>i. failed_attempt g day (i + 1) (e i)) [0 ..< RETRIES g]) @
           [Print (failed_message g day), Return day None]
       \<and> sleeps (emitted w (snd (backup_date g api day w))) =
           map (\<lambda>attempt. BACKOFF g * attempt) [1 ..< RETRIES g + 1]
       \<and> length (requests (emitted w (snd (backup_date g api day w)))) = RETRIES g"
proof -
  let ?w1 = "snd (backup_date g api day w)"
  let ?E = "Call day #
           concat (map (\<lambda>i. failed_attempt g day (i + 1) (e i)) [0 ..< RETRIES g]) @
           [Print (failed_message g day), Return day None]"
  from assms have f: "fst (backup_date g api day w) = None"
    and t: "trace ?w1 = trace w @ ?E"
    by (simp_all add: backup_date_failure)
  have em: "emitted w ?w1 = ?E"
    using t by (rule emitted_append)
  have "sleeps ?E = map (\<lambda>i. BACKOFF g * (i + 1)) [0 ..< RETRIES g]"
    by (simp add: sleeps_failed_attempts)
  also have "\<dots> = map (\<lambda>attempt. BACKOFF g * attempt) [1 ..< RETRIES g + 1]"
    by (rule map_shift_upt)
  finally have sl: "sleeps ?E = map (\<lambda>attempt. BACKOFF g * attempt) [1 ..< RETRIES g + 1]" .
  have rq: "length (requests ?E) = RETRIES g"
    by (simp add: requests_failed_attempts)
  show ?thesis
    unfolding em using f sl rq by simp
qed

theorem backup_date_exhausted_witness:
  "fst (backup_date (notebook_globals ''dev'') (\<lambda>n dev d. Inl ''timeout'') 738886
          \<lparr>served = 0, trace = [], out_file = None\<rparr>) = (None :: nat option)
   \<and> sleeps (emitted \<lparr>served = 0, trace = [], out_file = None\<rparr>
        (snd (backup_date (notebook_globals ''dev'') (\<lambda>n dev d. Inl ''timeout'') 738886
          (\<lparr>served = 0, trace = [], out_file = None\<rparr> :: nat world)))) =
       [2, 4, 6, 8, 10, 12, 14, 16, 18, 20]
   \<and> drop 30 (emitted \<lparr>served = 0, trace = [], out_file = None\<rparr>
        (snd (backup_date (notebook_globals ''dev'') (\<lambda>n dev d. Inl ''timeout'') 738886
          (\<lparr>served = 0, trace = [], out_file = None\<rparr> :: nat world)))) =
       [Sleep 20, Print ''Failed to fetch data for 2024-01-01 after 10 retries'', Return 738886 None]"
  using backup_date_exhausted [where g = "notebook_globals ''dev''"
      and api = "\<lambda>n dev d. Inl ''timeout'' :: string + nat option"
      and w = "\<lparr>served = 0, trace = [], out_file = None\<rparr>" and day = 738886
      and e = "\<lambda>i. ''timeout''"]
  by (simp add: run_defs upt_rec record_line_example failed_message_example)

end
